theory Spec2Isabelle
  imports Complex_Main
begin

section \<open>The word analyzer of enhanced\_script.js\<close>

text \<open>
  A shallow embedding of \<^verbatim>\<open>extractRootData\<close> and of the class
  \<^verbatim>\<open>IntelligentWordAnalyzer\<close> of \<^verbatim>\<open>src/enhanced_script.js\<close>.

  Conventions of the model.
  \<^item> An English string (a key of the lexicon, a typed word) is a \<open>string\<close>: the list of
    its UTF-16 code units, each below 256. On this range \<^verbatim>\<open>toLowerCase\<close> and
    \<^verbatim>\<open>trim\<close> are the functions \<open>toLowerCase\<close> and \<open>trim\<close> below, and
    \<^verbatim>\<open>length\<close> is the length of the list.
  \<^item> A Chinese gloss is a \<open>ustring\<close>: the list of its UTF-16 code units as numbers.
  \<^item> \<^verbatim>\<open>ROOT_DATABASE\<close> is the map of the own properties of that object. Its values
    are lexicon entries and index arrays, in one namespace, as in the source.
    The two lowercase names inherited from \<^verbatim>\<open>Object.prototype\<close>
    (\<^verbatim>\<open>constructor\<close> and \<^verbatim>\<open>__proto__\<close>) are outside the model.
  \<^item> A confidence is a \<open>rat\<close>. The source computes in doubles; every number it compares
    is a decimal constant or a quotient of two set sizes of at most 256, and on those the
    order and equality of the doubles are those of the rationals.
  \<^item> \<^verbatim>\<open>Date.now()\<close> is an argument of \<open>analyze\<close>.
  \<^item> A \<^verbatim>\<open>TypeError\<close> of the source is the value \<open>Inl TypeError\<close>.
\<close>

subsection \<open>Strings\<close>

type_synonym ustring = "nat list"

definition ustr :: "string \<Rightarrow> ustring" where
  "ustr s = map of_char s"

definition toLowerChar :: "char \<Rightarrow> char" where
  "toLowerChar c =
     (let n = (of_char c :: nat)
      in if (65 \<le> n \<and> n \<le> 90) \<or> (192 \<le> n \<and> n \<le> 222 \<and> n \<noteq> 215)
         then char_of (n + 32) else c)"

definition toLowerCase :: "string \<Rightarrow> string" where
  "toLowerCase s = map toLowerChar s"

definition is_space :: "char \<Rightarrow> bool" where
  "is_space c = ((of_char c :: nat) \<in> {9, 10, 11, 12, 13, 32, 160})"

definition trim :: "string \<Rightarrow> string" where
  "trim s = rev (dropWhile is_space (rev (dropWhile is_space s)))"

definition endsWith :: "string \<Rightarrow> string \<Rightarrow> bool" where
  "endsWith w s = (length s \<le> length w \<and> drop (length w - length s) w = s)"

definition startsWith :: "string \<Rightarrow> string \<Rightarrow> bool" where
  "startsWith w p = (take (length p) w = p)"

text \<open>\<^verbatim>\<open>w.slice(0, -n)\<close>; \<^verbatim>\<open>-0\<close> is \<^verbatim>\<open>0\<close>, so \<open>n = 0\<close> gives the empty string.\<close>

definition slice_end :: "string \<Rightarrow> nat \<Rightarrow> string" where
  "slice_end w n = (if n = 0 then [] else take (length w - n) w)"

text \<open>\<^verbatim>\<open>w.slice(n)\<close>\<close>

definition slice_from :: "string \<Rightarrow> nat \<Rightarrow> string" where
  "slice_from w n = drop n w"

text \<open>\<^verbatim>\<open>s1.includes(s2)\<close>\<close>

fun str_includes :: "string \<Rightarrow> string \<Rightarrow> bool" where
  "str_includes [] s2 = (s2 = [])"
| "str_includes (c # cs) s2 = (take (length s2) (c # cs) = s2 \<or> str_includes cs s2)"

text \<open>The decimal numeral of a number, as a template literal prints it.\<close>

definition digit :: "nat \<Rightarrow> char" where
  "digit d = char_of (48 + d)"

fun string_of_nat :: "nat \<Rightarrow> string" where
  "string_of_nat n =
     (if n < 10 then [digit n] else string_of_nat (n div 10) @ [digit (n mod 10)])"

declare string_of_nat.simps [simp del]

subsection \<open>Data\<close>

record entry =
  english :: string
  chinese :: ustring
  pinyin :: ustring
  category :: string
  priority :: int

text \<open>
  What a property of \<^verbatim>\<open>ROOT_DATABASE\<close> or the field \<^verbatim>\<open>result\<close> of an analysis
  can hold:
  \<^item> \<open>Entry e\<close>: a lexicon entry, or a copy of one with another \<^verbatim>\<open>chinese\<close>;
  \<^item> \<open>Index b\<close>: an index array (a \<^verbatim>\<open>length_\<close> or \<^verbatim>\<open>letter_\<close> bucket);
  \<^item> \<open>IndexCopy b c\<close>: the object \<^verbatim>\<open>{...b, chinese: c}\<close> spread from an index array;
  \<^item> \<open>CompoundEntry e\<close>: the entry synthesized by the compound strategy
    (\<^verbatim>\<open>compound: true\<close>).
\<close>

datatype jsval =
    Entry entry
  | Index "entry list"
  | IndexCopy "entry list" ustring
  | CompoundEntry entry

type_synonym rootdb = "string \<rightharpoonup> jsval"

datatype error = TypeError

text \<open>The property \<^verbatim>\<open>chinese\<close> of a value; \<open>None\<close> is \<^verbatim>\<open>undefined\<close>.\<close>

fun chinese_of :: "jsval \<Rightarrow> ustring option" where
  "chinese_of (Entry e) = Some (chinese e)"
| "chinese_of (Index b) = None"
| "chinese_of (IndexCopy b c) = Some c"
| "chinese_of (CompoundEntry e) = Some (chinese e)"

text \<open>String conversion of a property in \<^verbatim>\<open>+\<close> and in \<^verbatim>\<open>join\<close>.\<close>

definition to_string :: "ustring option \<Rightarrow> ustring" where
  "to_string v = (case v of None \<Rightarrow> ustr ''undefined'' | Some s \<Rightarrow> s)"

definition join_item :: "ustring option \<Rightarrow> ustring" where
  "join_item v = (case v of None \<Rightarrow> [] | Some s \<Rightarrow> s)"

text \<open>\<^verbatim>\<open>{...baseMatch, chinese: c}\<close>\<close>

fun with_chinese :: "jsval \<Rightarrow> ustring \<Rightarrow> jsval" where
  "with_chinese (Entry e) c = Entry (e\<lparr>chinese := c\<rparr>)"
| "with_chinese (Index b) c = IndexCopy b c"
| "with_chinese (IndexCopy b c') c = IndexCopy b c"
| "with_chinese (CompoundEntry e) c = CompoundEntry (e\<lparr>chinese := c\<rparr>)"

subsection \<open>extractRootData\<close>

definition prefixes :: "string list" where
  "prefixes = [''un'', ''dis'', ''re'', ''pre'', ''mis'', ''over'', ''under'', ''sub'',
     ''super'', ''inter'', ''intra'', ''trans'']"

definition suffixes :: "string list" where
  "suffixes = [''ing'', ''ed'', ''s'', ''es'', ''ly'', ''ment'', ''ness'', ''tion'', ''sion'',
     ''able'', ''ible'', ''al'', ''ial'', ''ful'', ''less'', ''ize'', ''ise'', ''ity'', ''ism'',
     ''ist'', ''ance'', ''ence'', ''hood'', ''ship'', ''dom'']"

definition inflections :: "string list" where
  "inflections = [''s'', ''es'', ''ed'', ''ing'', ''er'', ''est'']"

definition length_key :: "nat \<Rightarrow> string" where
  "length_key n = ''length_'' @ string_of_nat n"

text \<open>\<^verbatim>\<open>`letter_${eng[0]}`\<close>; \<^verbatim>\<open>eng[0]\<close> of the empty string is \<^verbatim>\<open>undefined\<close>.\<close>

definition letter_key :: "string \<Rightarrow> string" where
  "letter_key eng = (case eng of [] \<Rightarrow> ''letter_undefined'' | c # cs \<Rightarrow> ''letter_'' @ [c])"

text \<open>
  \<^verbatim>\<open>if (!ROOT_DATABASE[k]) ROOT_DATABASE[k] = []; ROOT_DATABASE[k].push(word)\<close>.
  An entry stored under \<open>k\<close> is truthy and has no \<^verbatim>\<open>push\<close>: the call raises.
\<close>

definition push_index :: "rootdb \<Rightarrow> string \<Rightarrow> entry \<Rightarrow> error + rootdb" where
  "push_index m k w =
     (case m k of
        None \<Rightarrow> Inr (m(k \<mapsto> Index [w]))
      | Some (Index b) \<Rightarrow> Inr (m(k \<mapsto> Index (b @ [w])))
      | Some _ \<Rightarrow> Inl TypeError)"

text \<open>The body of the \<^verbatim>\<open>forEach\<close>.\<close>

definition index_word :: "rootdb \<Rightarrow> entry \<Rightarrow> error + rootdb" where
  "index_word m w =
     (let eng = toLowerCase (english w);
          m1 = m(eng \<mapsto> Entry w)
      in case push_index m1 (length_key (length eng)) w of
           Inl e \<Rightarrow> Inl e
         | Inr m2 \<Rightarrow> push_index m2 (letter_key eng) w)"

fun index_words :: "rootdb \<Rightarrow> entry list \<Rightarrow> error + rootdb" where
  "index_words m [] = Inr m"
| "index_words m (w # ws) =
     (case index_word m w of Inl e \<Rightarrow> Inl e | Inr m' \<Rightarrow> index_words m' ws)"

definition extractRootData :: "entry list \<Rightarrow> error + rootdb" where
  "extractRootData WORD_DATABASE = index_words Map.empty WORD_DATABASE"

subsection \<open>Direct and inflection matching\<close>

text \<open>\<^verbatim>\<open>ROOT_DATABASE[word] || null\<close>: entries and arrays are truthy.\<close>

definition directMatch :: "rootdb \<Rightarrow> string \<Rightarrow> jsval option" where
  "directMatch rdb word = rdb word"

datatype part_type = base | inflection_part | prefix_part | suffix_part | component

text \<open>
  An item of a decomposition: \<^verbatim>\<open>part\<close>, \<^verbatim>\<open>type\<close>, and the optional properties
  \<^verbatim>\<open>chinese\<close> (\<open>gloss\<close>: absent is \<open>None\<close>, present and \<^verbatim>\<open>undefined\<close> is
  \<open>Some None\<close>), \<^verbatim>\<open>meaning\<close> and \<^verbatim>\<open>match\<close>.
\<close>

record item =
  part :: string
  ptype :: part_type
  gloss :: "ustring option option"
  meaning :: "ustring option"
  matched :: "jsval option"

definition getInflectionMeaning :: "string \<Rightarrow> ustring" where
  "getInflectionMeaning i =
     (case map_of
        [(''s'', [22797, 25968]), (''es'', [22797, 25968]), (''ed'', [36807, 21435, 24335]),
         (''ing'', [36827, 34892, 24335]), (''er'', [27604, 36739, 32423]),
         (''est'', [26368, 39640, 32423])] i of
        None \<Rightarrow> [] | Some m \<Rightarrow> m)"

fun matchInflections_loop ::
  "rootdb \<Rightarrow> string \<Rightarrow> string list \<Rightarrow> (jsval \<times> item list) option" where
  "matchInflections_loop rdb word [] = None"
| "matchInflections_loop rdb word (i # rest) =
     (if endsWith word i then
        (let b = slice_end word (length i)
         in case directMatch rdb b of
              Some m \<Rightarrow>
                Some (m,
                  [\<lparr>part = b, ptype = base, gloss = Some (chinese_of m),
                    meaning = None, matched = None\<rparr>,
                   \<lparr>part = i, ptype = inflection_part,
                    gloss = Some (Some (getInflectionMeaning i)),
                    meaning = None, matched = None\<rparr>])
            | None \<Rightarrow> matchInflections_loop rdb word rest)
      else matchInflections_loop rdb word rest)"

definition matchInflections :: "rootdb \<Rightarrow> string \<Rightarrow> (jsval \<times> item list) option" where
  "matchInflections rdb word = matchInflections_loop rdb word inflections"

subsection \<open>Affix matching\<close>

definition getPrefixMeaning :: "string \<Rightarrow> ustring" where
  "getPrefixMeaning p =
     (case map_of
        [(''un'', [19981]), (''dis'', [38750]), (''re'', [20877]), (''pre'', [21069]),
         (''mis'', [35823]), (''over'', [36807]), (''under'', [19981, 36275]),
         (''sub'', [19979]), (''super'', [36229]), (''inter'', [38388]),
         (''intra'', [20869]), (''trans'', [36328])] p of
        None \<Rightarrow> [] | Some m \<Rightarrow> m)"

definition getSuffixMeaning :: "string \<Rightarrow> ustring" where
  "getSuffixMeaning s =
     (case map_of
        [(''ing'', [20013]), (''ed'', [20102]), (''s'', [20204]), (''es'', [20204]),
         (''ly'', [22320]), (''ment'', []), (''ness'', [24615]), (''tion'', []),
         (''sion'', []), (''able'', [21487]), (''ible'', [21487]), (''al'', [30340]),
         (''ial'', [30340]), (''ful'', [20805, 28385]), (''less'', [26080]),
         (''ize'', [21270]), (''ise'', [21270]), (''ity'', [24615]),
         (''ism'', [20027, 20041]), (''ist'', [23478]), (''ance'', []), (''ence'', []),
         (''hood'', [29366, 24577]), (''ship'', [20851, 31995]),
         (''dom'', [39046, 22495])] s of
        None \<Rightarrow> [] | Some m \<Rightarrow> m)"

datatype match_type = direct | inflection | prefixed | suffixed | similar | compound | not_found

text \<open>The object an affix match returns: \<^verbatim>\<open>type\<close>, \<^verbatim>\<open>confidence\<close>, \<^verbatim>\<open>result\<close>,
  \<^verbatim>\<open>decomposition\<close>.\<close>

type_synonym affix_match = "match_type \<times> rat \<times> jsval \<times> item list"

fun prefix_loop :: "rootdb \<Rightarrow> string \<Rightarrow> string list \<Rightarrow> affix_match option" where
  "prefix_loop rdb word [] = None"
| "prefix_loop rdb word (p # rest) =
     (if startsWith word p \<and> length word > length p + 2 then
        (let b = slice_from word (length p)
         in case directMatch rdb b of
              Some baseMatch \<Rightarrow>
                Some (prefixed, 85 / 100,
                  with_chinese baseMatch (getPrefixMeaning p @ to_string (chinese_of baseMatch)),
                  [\<lparr>part = p, ptype = prefix_part, gloss = None,
                    meaning = Some (getPrefixMeaning p), matched = None\<rparr>,
                   \<lparr>part = b, ptype = base, gloss = Some (chinese_of baseMatch),
                    meaning = None, matched = None\<rparr>])
            | None \<Rightarrow> prefix_loop rdb word rest)
      else prefix_loop rdb word rest)"

fun suffix_loop :: "rootdb \<Rightarrow> string \<Rightarrow> string list \<Rightarrow> affix_match option" where
  "suffix_loop rdb word [] = None"
| "suffix_loop rdb word (s # rest) =
     (if endsWith word s \<and> length word > length s + 2 then
        (let b = slice_end word (length s)
         in case directMatch rdb b of
              Some baseMatch \<Rightarrow>
                Some (suffixed, 80 / 100,
                  with_chinese baseMatch (to_string (chinese_of baseMatch) @ getSuffixMeaning s),
                  [\<lparr>part = b, ptype = base, gloss = Some (chinese_of baseMatch),
                    meaning = None, matched = None\<rparr>,
                   \<lparr>part = s, ptype = suffix_part, gloss = None,
                    meaning = Some (getSuffixMeaning s), matched = None\<rparr>])
            | None \<Rightarrow> suffix_loop rdb word rest)
      else suffix_loop rdb word rest)"

definition matchWithAffixes :: "rootdb \<Rightarrow> string \<Rightarrow> affix_match option" where
  "matchWithAffixes rdb word =
     (case prefix_loop rdb word prefixes of
        Some m \<Rightarrow> Some m
      | None \<Rightarrow> suffix_loop rdb word suffixes)"

subsection \<open>Similar words\<close>

definition threshold :: rat where
  "threshold = 7 / 10"

definition calculateSimilarity :: "string \<Rightarrow> string \<Rightarrow> rat" where
  "calculateSimilarity str1 str2 =
     (if str1 = str2 then 1
      else if str_includes str1 str2 \<or> str_includes str2 str1 then 9 / 10
      else
        (let set1 = remdups str1;
             set2 = remdups str2;
             intersection = filter (\<lambda>x. x \<in> set set2) set1;
             union_set = remdups (set1 @ set2)
         in of_nat (length intersection) / of_nat (length union_set)))"

text \<open>
  \<^verbatim>\<open>ROOT_DATABASE[`length_${len}`] || []\<close>, iterated by \<^verbatim>\<open>for ... of\<close>: an entry
  stored under that key is not iterable, and the loop raises.
\<close>

definition wordsOfLength :: "rootdb \<Rightarrow> nat \<Rightarrow> error + entry list" where
  "wordsOfLength rdb len =
     (case rdb (length_key len) of
        None \<Rightarrow> Inr []
      | Some (Index b) \<Rightarrow> Inr b
      | Some _ \<Rightarrow> Inl TypeError)"

definition similar_in :: "string \<Rightarrow> entry list \<Rightarrow> (entry \<times> rat) list" where
  "similar_in word ws =
     filter (\<lambda>(c, s). threshold \<le> s)
       (map (\<lambda>c. (c, calculateSimilarity word (toLowerCase (english c)))) ws)"

fun collect_candidates :: "rootdb \<Rightarrow> string \<Rightarrow> nat list \<Rightarrow> error + (entry \<times> rat) list" where
  "collect_candidates rdb word [] = Inr []"
| "collect_candidates rdb word (len # lens) =
     (case wordsOfLength rdb len of
        Inl e \<Rightarrow> Inl e
      | Inr ws \<Rightarrow>
          (case collect_candidates rdb word lens of
             Inl e \<Rightarrow> Inl e
           | Inr cs \<Rightarrow> Inr (similar_in word ws @ cs)))"

definition lengthRange :: "string \<Rightarrow> nat list" where
  "lengthRange word = [max 3 (length word - 3) ..< length word + 3 + 1]"

text \<open>\<^verbatim>\<open>candidates.sort((a, b) => b.similarity - a.similarity)\<close>: descending by
  similarity, and stable, as the language requires of \<^verbatim>\<open>sort\<close> since ECMAScript 2019.\<close>

definition sort_candidates :: "(entry \<times> rat) list \<Rightarrow> (entry \<times> rat) list" where
  "sort_candidates cs = sort_key (\<lambda>(c, s). - s) cs"

text \<open>The object a similar match returns: \<^verbatim>\<open>confidence\<close>, \<^verbatim>\<open>result\<close>,
  \<^verbatim>\<open>suggestions\<close>.\<close>

definition findSimilarWords ::
  "rootdb \<Rightarrow> string \<Rightarrow> error + (rat \<times> entry \<times> entry list) option" where
  "findSimilarWords rdb word =
     (case collect_candidates rdb word (lengthRange word) of
        Inl e \<Rightarrow> Inl e
      | Inr candidates \<Rightarrow>
          (case sort_candidates candidates of
             [] \<Rightarrow> Inr None
           | best # rest \<Rightarrow> Inr (Some (snd best, fst best, map fst (take 4 rest)))))"

subsection \<open>Compound words\<close>

definition is_word_char :: "char \<Rightarrow> bool" where
  "is_word_char c =
     (let n = (of_char c :: nat)
      in (48 \<le> n \<and> n \<le> 57) \<or> (65 \<le> n \<and> n \<le> 90) \<or> n = 95 \<or> (97 \<le> n \<and> n \<le> 122))"

text \<open>
  The two shapes of the regular expressions: \<^verbatim>\<open>/^(\w+)(a|b|...)$/i\<close> and
  \<^verbatim>\<open>/^(a|b|...)(\w+)$/i\<close>. A match gives the two groups.
\<close>

datatype pattern = StemSuffix "string list" | PrefixStem "string list"

text \<open>
  The greedy \<^verbatim>\<open>\w+\<close> takes the longest run of word characters and gives them back one
  at a time, down to one character, until the rest of the word is one of the alternatives.
  Under the flag \<^verbatim>\<open>i\<close> an alternative, written in lowercase letters, matches the rest
  of the word in either case; the groups keep the characters of the word.
\<close>

fun backtrack :: "string list \<Rightarrow> string \<Rightarrow> nat \<Rightarrow> (string \<times> string) option" where
  "backtrack alts word 0 = None"
| "backtrack alts word (Suc k) =
     (if toLowerCase (drop (Suc k) word) \<in> set alts
      then Some (take (Suc k) word, drop (Suc k) word)
      else backtrack alts word k)"

text \<open>The alternatives are tried in order; the rest must be word characters to the end.\<close>

fun try_prefixes :: "string list \<Rightarrow> string \<Rightarrow> (string \<times> string) option" where
  "try_prefixes [] word = None"
| "try_prefixes (a # alts) word =
     (if toLowerCase (take (length a) word) = a \<and> drop (length a) word \<noteq> []
         \<and> list_all is_word_char (drop (length a) word)
      then Some (take (length a) word, drop (length a) word)
      else try_prefixes alts word)"

fun match_pattern :: "pattern \<Rightarrow> string \<Rightarrow> (string \<times> string) option" where
  "match_pattern (StemSuffix alts) word =
     backtrack alts word (length (takeWhile is_word_char word))"
| "match_pattern (PrefixStem alts) word = try_prefixes alts word"

definition patterns :: "pattern list" where
  "patterns =
     [StemSuffix [''graphy'', ''logy'', ''nomy'', ''sophy'', ''pathy'', ''metry'', ''scopy''],
      StemSuffix [''able'', ''ible'', ''ful'', ''less'', ''ness'', ''ment'', ''tion'', ''sion'',
        ''ance'', ''ence''],
      PrefixStem [''micro'', ''macro'', ''tele'', ''hydro'', ''psych'', ''chron'', ''geo'',
        ''bio'', ''astro'', ''therm'', ''photo''],
      StemSuffix [''proof'', ''resistant'', ''free'', ''wise'', ''like'', ''worthy'']]"

text \<open>The item pushed for a part that has a direct match.\<close>

definition component_item :: "string \<Rightarrow> jsval \<Rightarrow> item" where
  "component_item p m =
     \<lparr>part = p, ptype = component, gloss = Some (chinese_of m), meaning = None,
      matched = Some m\<rparr>"

text \<open>The loop over the parts: \<open>None\<close> when a part has no direct match
  (\<^verbatim>\<open>allMatched = false\<close>).\<close>

fun match_parts :: "rootdb \<Rightarrow> string list \<Rightarrow> item list option" where
  "match_parts rdb [] = Some []"
| "match_parts rdb (p # ps) =
     (case directMatch rdb p of
        None \<Rightarrow> None
      | Some partMatch \<Rightarrow>
          (case match_parts rdb ps of
             None \<Rightarrow> None
           | Some ds \<Rightarrow> Some (component_item p partMatch # ds)))"

text \<open>\<^verbatim>\<open>d.chinese\<close> of an item.\<close>

definition item_chinese :: "item \<Rightarrow> ustring option" where
  "item_chinese d = (case gloss d of None \<Rightarrow> None | Some v \<Rightarrow> v)"

fun compound_loop ::
  "rootdb \<Rightarrow> string \<Rightarrow> pattern list \<Rightarrow> (rat \<times> jsval \<times> item list) option" where
  "compound_loop rdb word [] = None"
| "compound_loop rdb word (p # ps) =
     (case match_pattern p word of
        None \<Rightarrow> compound_loop rdb word ps
      | Some (g1, g2) \<Rightarrow>
          (let parts = filter (\<lambda>p. length p \<ge> 3) [g1, g2]
           in if length parts \<ge> 2 then
                (case match_parts rdb parts of
                   None \<Rightarrow> compound_loop rdb word ps
                 | Some ds \<Rightarrow>
                     if length ds \<ge> 2 then
                       Some (75 / 100,
                         CompoundEntry
                           \<lparr>english = word,
                            chinese = concat (map (\<lambda>d. join_item (item_chinese d)) ds),
                            pinyin = [], category = ''Compound'', priority = 4\<rparr>,
                         ds)
                     else compound_loop rdb word ps)
              else compound_loop rdb word ps))"

definition analyzeCompoundWord ::
  "rootdb \<Rightarrow> string \<Rightarrow> (rat \<times> jsval \<times> item list) option" where
  "analyzeCompoundWord rdb word =
     (if length word < 6 then None else compound_loop rdb word patterns)"

subsection \<open>analyze\<close>

record analysis =
  original :: string
  normalized :: string
  found :: bool
  confidence :: rat
  matchType :: match_type
  result :: "jsval option"
  decomposition :: "item list"
  suggestions :: "entry list"
  timestamp :: nat

type_synonym cache = "string \<rightharpoonup> analysis"

text \<open>The cascade that runs on a cache miss, up to the \<^verbatim>\<open>cache.set\<close> that every exit
  does.\<close>

definition strategies :: "rootdb \<Rightarrow> nat \<Rightarrow> string \<Rightarrow> string \<Rightarrow> error + analysis" where
  "strategies rdb now word lowerWord =
     (let a = \<lparr>original = word, normalized = lowerWord, found = False, confidence = 0,
                matchType = not_found, result = None, decomposition = [],
                suggestions = [], timestamp = now\<rparr>
      in case directMatch rdb lowerWord of
           Some dm \<Rightarrow>
             Inr (a\<lparr>found := True, confidence := 1, matchType := direct, result := Some dm\<rparr>)
         | None \<Rightarrow>
        (case matchInflections rdb lowerWord of
           Some (r, ds) \<Rightarrow>
             Inr (a\<lparr>found := True, confidence := 95 / 100, matchType := inflection,
                     result := Some r, decomposition := ds\<rparr>)
         | None \<Rightarrow>
        (case matchWithAffixes rdb lowerWord of
           Some (ty, c, r, ds) \<Rightarrow>
             Inr (a\<lparr>found := True, confidence := c, matchType := ty,
                     result := Some r, decomposition := ds\<rparr>)
         | None \<Rightarrow>
        (case findSimilarWords rdb lowerWord of
           Inl e \<Rightarrow> Inl e
         | Inr (Some (c, r, sg)) \<Rightarrow>
             Inr (a\<lparr>found := True, confidence := c, matchType := similar,
                     result := Some (Entry r), suggestions := sg\<rparr>)
         | Inr None \<Rightarrow>
        (case analyzeCompoundWord rdb lowerWord of
           Some (c, r, ds) \<Rightarrow>
             Inr (a\<lparr>found := True, confidence := c, matchType := compound,
                     result := Some r, decomposition := ds\<rparr>)
         | None \<Rightarrow> Inr a)))))"

definition analyze ::
  "rootdb \<Rightarrow> cache \<Rightarrow> nat \<Rightarrow> string \<Rightarrow> error + (analysis \<times> cache)" where
  "analyze rdb cache now word =
     (let lowerWord = trim (toLowerCase word)
      in case cache lowerWord of
           Some a \<Rightarrow> Inr (a, cache)
         | None \<Rightarrow>
             (case strategies rdb now word lowerWord of
                Inl e \<Rightarrow> Inl e
              | Inr a \<Rightarrow> Inr (a, cache(lowerWord \<mapsto> a))))"

text \<open>The constructor: \<^verbatim>\<open>this.cache = new Map()\<close>.\<close>

definition new_cache :: cache where
  "new_cache = Map.empty"

text \<open>The caches an analyzer can hold: the constructor's empty one, and the one after each
  call that returned.\<close>

inductive reachable :: "rootdb \<Rightarrow> cache \<Rightarrow> bool" for rdb :: rootdb where
  fresh: "reachable rdb new_cache"
| call: "reachable rdb c \<Longrightarrow> analyze rdb c now word = Inr (a, c') \<Longrightarrow> reachable rdb c'"

subsection \<open>The index that extractRootData builds, as a function of the lexicon\<close>

text \<open>
  The lookup table in closed form, for stating what \<open>extractRootData\<close> builds (the
  lemma \<open>extractRootData_index_of\<close> below): under the lowercased key of an entry, the last
  entry with that key; under another name, the entries whose length key or letter key is that
  name (its \<open>bucket\<close>), in lexicon order, when there are any.
\<close>

definition key_of :: "entry \<Rightarrow> string" where
  "key_of e = toLowerCase (english e)"

definition bucket :: "entry list \<Rightarrow> string \<Rightarrow> entry list" where
  "bucket db k =
     filter (\<lambda>e. length_key (length (key_of e)) = k \<or> letter_key (key_of e) = k) db"

definition index_of :: "entry list \<Rightarrow> rootdb" where
  "index_of db k =
     (case filter (\<lambda>e. key_of e = k) db of
        [] \<Rightarrow> (case bucket db k of [] \<Rightarrow> None | x # xs \<Rightarrow> Some (Index (x # xs)))
      | x # xs \<Rightarrow> Some (Entry (last (x # xs))))"

text \<open>Names of the shape of an index key.\<close>

definition index_key :: "string \<Rightarrow> bool" where
  "index_key k = (take 7 k = ''length_'' \<or> take 7 k = ''letter_'')"

text \<open>A lexicon none of whose keys has that shape.\<close>

definition plain_lexicon :: "entry list \<Rightarrow> bool" where
  "plain_lexicon db = list_all (\<lambda>e. \<not> index_key (key_of e)) db"

text \<open>
  The candidates of the similar-word search in closed form: for each length of the range in
  turn, the entries of that length in lexicon order that reach the threshold, each with its
  similarity.
\<close>

definition pool :: "entry list \<Rightarrow> string \<Rightarrow> nat list \<Rightarrow> (entry \<times> rat) list" where
  "pool db w lens =
     concat (map (\<lambda>n. similar_in w (filter (\<lambda>e. length (key_of e) = n) db)) lens)"

subsection \<open>A small lexicon\<close>

definition cat_entry :: entry where
  "cat_entry = \<lparr>english = ''cat'', chinese = [29483], pinyin = ustr ''mao'',
     category = ''Nature/Existence'', priority = 1\<rparr>"

definition happy_entry :: entry where
  "happy_entry = \<lparr>english = ''Happy'', chinese = [20048], pinyin = ustr ''le'',
     category = ''Qualities/Degree'', priority = 2\<rparr>"

definition photo_entry :: entry where
  "photo_entry = \<lparr>english = ''photo'', chinese = [20809], pinyin = ustr ''guang'',
     category = ''Modern/Abstract'', priority = 3\<rparr>"

definition graphy_entry :: entry where
  "graphy_entry = \<lparr>english = ''graphy'', chinese = [20889], pinyin = ustr ''xie'',
     category = ''Modern/Abstract'', priority = 3\<rparr>"

definition example_lexicon :: "entry list" where
  "example_lexicon = [cat_entry, happy_entry, photo_entry, graphy_entry]"

definition example_index :: rootdb where
  "example_index = index_of example_lexicon"

definition ox_entry :: entry where
  "ox_entry = \<lparr>english = ''ox'', chinese = [29275], pinyin = ustr ''niu'',
     category = ''Nature/Existence'', priority = 1\<rparr>"

definition ox_lexicon :: "entry list" where
  "ox_lexicon = [ox_entry]"

definition planet_entry :: entry where
  "planet_entry = \<lparr>english = ''planet'', chinese = [34892, 26143], pinyin = ustr ''xingxing'',
     category = ''Nature/Existence'', priority = 2\<rparr>"

definition plane_entry :: entry where
  "plane_entry = \<lparr>english = ''plane'', chinese = [39134, 26426], pinyin = ustr ''feiji'',
     category = ''Modern/Abstract'', priority = 2\<rparr>"

definition planes_lexicon :: "entry list" where
  "planes_lexicon = [planet_entry, plane_entry]"

definition fox_analysis :: analysis where
  "fox_analysis =
     \<lparr>original = ''fox'', normalized = ''fox'', found = False, confidence = 0,
      matchType = not_found, result = None, decomposition = [], suggestions = [],
      timestamp = 0\<rparr>"

definition plan_analysis :: analysis where
  "plan_analysis =
     \<lparr>original = ''plan'', normalized = ''plan'', found = True, confidence = 9 / 10,
      matchType = similar, result = Some (Entry plane_entry), decomposition = [],
      suggestions = [planet_entry], timestamp = 0\<rparr>"

definition cats_analysis :: analysis where
  "cats_analysis =
     \<lparr>original = ''Cats'', normalized = ''cats'', found = True, confidence = 95 / 100,
      matchType = inflection, result = Some (Entry cat_entry),
      decomposition =
        [\<lparr>part = ''cat'', ptype = base, gloss = Some (Some [29483]),
          meaning = None, matched = None\<rparr>,
         \<lparr>part = ''s'', ptype = inflection_part, gloss = Some (Some [22797, 25968]),
          meaning = None, matched = None\<rparr>],
      suggestions = [], timestamp = 0\<rparr>"

definition unhappy_analysis :: analysis where
  "unhappy_analysis =
     \<lparr>original = '' unhappy'', normalized = ''unhappy'', found = True, confidence = 85 / 100,
      matchType = prefixed, result = Some (Entry (happy_entry\<lparr>chinese := [19981, 20048]\<rparr>)),
      decomposition =
        [\<lparr>part = ''un'', ptype = prefix_part, gloss = None,
          meaning = Some [19981], matched = None\<rparr>,
         \<lparr>part = ''happy'', ptype = base, gloss = Some (Some [20048]),
          meaning = None, matched = None\<rparr>],
      suggestions = [], timestamp = 7\<rparr>"

definition ax_entry :: entry where
  "ax_entry = \<lparr>english = ''ax'', chinese = [26023], pinyin = ustr ''fu'',
     category = ''Nature/Existence'', priority = 2\<rparr>"

definition axe_entry :: entry where
  "axe_entry = \<lparr>english = ''axe'', chinese = [26023, 22836], pinyin = ustr ''futou'',
     category = ''Nature/Existence'', priority = 2\<rparr>"

definition axes_lexicon :: "entry list" where
  "axes_lexicon = [ax_entry, axe_entry]"

definition axes_analysis :: analysis where
  "axes_analysis =
     \<lparr>original = ''axes'', normalized = ''axes'', found = True, confidence = 95 / 100,
      matchType = inflection, result = Some (Entry axe_entry),
      decomposition =
        [\<lparr>part = ''axe'', ptype = base, gloss = Some (Some [26023, 22836]),
          meaning = None, matched = None\<rparr>,
         \<lparr>part = ''s'', ptype = inflection_part, gloss = Some (Some [22797, 25968]),
          meaning = None, matched = None\<rparr>],
      suggestions = [], timestamp = 0\<rparr>"

definition empty_analysis :: analysis where
  "empty_analysis =
     \<lparr>original = [], normalized = [], found = True, confidence = 9 / 10,
      matchType = similar, result = Some (Entry cat_entry), decomposition = [],
      suggestions = [], timestamp = 0\<rparr>"

definition blank_analysis :: analysis where
  "blank_analysis =
     \<lparr>original = ''  '', normalized = [], found = False, confidence = 0,
      matchType = not_found, result = None, decomposition = [], suggestions = [],
      timestamp = 0\<rparr>"

definition article_entry :: entry where
  "article_entry = \<lparr>english = ''a '', chinese = [19968], pinyin = ustr ''yi'',
     category = ''Qualities/Degree'', priority = 1\<rparr>"

definition article_lexicon :: "entry list" where
  "article_lexicon = [article_entry]"

definition article_analysis :: analysis where
  "article_analysis =
     \<lparr>original = ''a '', normalized = ''a'', found = False, confidence = 0,
      matchType = not_found, result = None, decomposition = [], suggestions = [],
      timestamp = 0\<rparr>"

definition happy_analysis :: analysis where
  "happy_analysis =
     \<lparr>original = ''Happy'', normalized = ''happy'', found = True, confidence = 1,
      matchType = direct, result = Some (Entry happy_entry), decomposition = [],
      suggestions = [], timestamp = 3\<rparr>"

text \<open>A result without the two fields that record the call: the raw input and the clock.\<close>

definition content :: "analysis \<Rightarrow> analysis" where
  "content a = a\<lparr>original := [], timestamp := 0\<rparr>"

definition length_3_analysis :: analysis where
  "length_3_analysis =
     \<lparr>original = ''length_3'', normalized = ''length_3'', found = True, confidence = 1,
      matchType = direct, result = Some (Index [cat_entry]), decomposition = [],
      suggestions = [], timestamp = 0\<rparr>"

definition letter_c_analysis :: analysis where
  "letter_c_analysis =
     \<lparr>original = ''letter_c'', normalized = ''letter_c'', found = True, confidence = 1,
      matchType = direct, result = Some (Index [cat_entry]), decomposition = [],
      suggestions = [], timestamp = 0\<rparr>"

section \<open>Properties\<close>

subsection \<open>Each strategy on its own\<close>

lemma endsWith_slice_end: "endsWith w s \<Longrightarrow> s \<noteq> [] \<Longrightarrow> slice_end w (length s) @ s = w"
  unfolding endsWith_def slice_end_def
  by (metis append_take_drop_id length_0_conv)

lemma startsWith_slice_from: "startsWith w p \<Longrightarrow> p @ slice_from w (length p) = w"
  unfolding startsWith_def slice_from_def
  by (metis append_take_drop_id)

lemma matchInflections_loop_parts:
  "matchInflections_loop rdb w is = Some (r, ds) \<Longrightarrow> [] \<notin> set is \<Longrightarrow> concat (map part ds) = w"
proof (induction "is")
  case Nil
  then show ?case by simp
next
  case (Cons i rest)
  show ?case
  proof (cases "endsWith w i \<and> directMatch rdb (slice_end w (length i)) \<noteq> None")
    case True
    then obtain m where m: "directMatch rdb (slice_end w (length i)) = Some m" by auto
    from Cons.prems True m have "ds = [\<lparr>part = slice_end w (length i), ptype = base, gloss = Some (chinese_of m),
                    meaning = None, matched = None\<rparr>,
                   \<lparr>part = i, ptype = inflection_part,
                    gloss = Some (Some (getInflectionMeaning i)),
                    meaning = None, matched = None\<rparr>]"
      by (auto simp: Let_def)
    moreover have "i \<noteq> []" using Cons.prems by auto
    ultimately show ?thesis using True by (simp add: endsWith_slice_end)
  next
    case False
    then have "matchInflections_loop rdb w (i # rest) = matchInflections_loop rdb w rest"
      by (auto simp: Let_def)
    with Cons show ?thesis by simp
  qed
qed

lemma prefix_loop_sound:
  "prefix_loop rdb w ps = Some (ty, c, r, ds) \<Longrightarrow>
     ty = prefixed \<and> c = 85 / 100 \<and> concat (map part ds) = w"
proof (induction ps)
  case Nil
  then show ?case by simp
next
  case (Cons p rest)
  show ?case
  proof (cases "startsWith w p \<and> length w > length p + 2 \<and> directMatch rdb (slice_from w (length p)) \<noteq> None")
    case True
    then obtain m where m: "directMatch rdb (slice_from w (length p)) = Some m" by auto
    from Cons.prems True m show ?thesis
      by (auto simp: Let_def startsWith_slice_from)
  next
    case False
    then have "prefix_loop rdb w (p # rest) = prefix_loop rdb w rest"
      by (auto simp: Let_def)
    with Cons show ?thesis by simp
  qed
qed

lemma suffix_loop_sound:
  "suffix_loop rdb w ss = Some (ty, c, r, ds) \<Longrightarrow> [] \<notin> set ss \<Longrightarrow>
     ty = suffixed \<and> c = 80 / 100 \<and> concat (map part ds) = w"
proof (induction ss)
  case Nil
  then show ?case by simp
next
  case (Cons s rest)
  show ?case
  proof (cases "endsWith w s \<and> length w > length s + 2 \<and> directMatch rdb (slice_end w (length s)) \<noteq> None")
    case True
    then obtain m where m: "directMatch rdb (slice_end w (length s)) = Some m" by auto
    have "s \<noteq> []" using Cons.prems by auto
    with Cons.prems True m show ?thesis
      by (auto simp: Let_def endsWith_slice_end)
  next
    case False
    then have "suffix_loop rdb w (s # rest) = suffix_loop rdb w rest"
      by (auto simp: Let_def)
    with Cons show ?thesis by simp
  qed
qed

lemma matchWithAffixes_sound:
  assumes "matchWithAffixes rdb w = Some (ty, c, r, ds)"
  shows "(ty = prefixed \<and> c = 85 / 100 \<or> ty = suffixed \<and> c = 80 / 100) \<and> concat (map part ds) = w"
proof (cases "prefix_loop rdb w prefixes")
  case None
  with assms have "suffix_loop rdb w suffixes = Some (ty, c, r, ds)"
    by (simp add: matchWithAffixes_def)
  moreover have "[] \<notin> set suffixes" by (simp add: suffixes_def)
  ultimately show ?thesis using suffix_loop_sound by blast
next
  case (Some m)
  with assms have "prefix_loop rdb w prefixes = Some (ty, c, r, ds)"
    by (simp add: matchWithAffixes_def)
  then show ?thesis using prefix_loop_sound by blast
qed

lemma matchInflections_parts:
  "matchInflections rdb w = Some (r, ds) \<Longrightarrow> concat (map part ds) = w"
proof -
  assume a: "matchInflections rdb w = Some (r, ds)"
  have "[] \<notin> set inflections" by (simp add: inflections_def)
  with a show ?thesis
    unfolding matchInflections_def using matchInflections_loop_parts by blast
qed

lemma collect_candidates_threshold:
  "collect_candidates rdb w lens = Inr cs \<Longrightarrow> (c, s) \<in> set cs \<Longrightarrow> threshold \<le> s"
proof (induction lens arbitrary: cs)
  case Nil
  then show ?case by simp
next
  case (Cons len lens)
  then show ?case
    by (auto simp: similar_in_def split: sum.splits)
qed

lemma findSimilarWords_confidence:
  assumes "findSimilarWords rdb w = Inr (Some (c, r, sg))"
  shows "threshold \<le> c"
proof -
  from assms obtain cs best rest where cs: "collect_candidates rdb w (lengthRange w) = Inr cs"
    and s: "sort_candidates cs = best # rest" and c: "c = snd best"
    by (auto simp: findSimilarWords_def split: sum.splits list.splits)
  have "best \<in> set (sort_candidates cs)" using s by simp
  then have "best \<in> set cs" by (simp add: sort_candidates_def)
  then have "(fst best, snd best) \<in> set cs" by simp
  with cs c show ?thesis using collect_candidates_threshold by blast
qed

lemma compound_loop_confidence:
  "compound_loop rdb w ps = Some (c, r, ds) \<Longrightarrow> c = 75 / 100"
  by (induction ps) (auto simp: Let_def split: option.splits if_splits prod.splits)

lemma analyzeCompoundWord_confidence:
  "analyzeCompoundWord rdb w = Some (c, r, ds) \<Longrightarrow> c = 75 / 100"
  by (cases "length w < 6") (auto simp: analyzeCompoundWord_def dest: compound_loop_confidence)


lemma backtrack_split: "backtrack alts w k = Some (g1, g2) \<Longrightarrow> g1 @ g2 = w"
  by (induction k) (auto split: if_splits)

lemma try_prefixes_split: "try_prefixes alts w = Some (g1, g2) \<Longrightarrow> g1 @ g2 = w"
proof (induction alts)
  case Nil
  then show ?case by simp
next
  case (Cons a alts)
  show ?case
  proof (cases "toLowerCase (take (length a) w) = a \<and> drop (length a) w \<noteq> []
         \<and> list_all is_word_char (drop (length a) w)")
    case True
    with Cons.prems have "g1 = take (length a) w" "g2 = drop (length a) w" by simp_all
    then show ?thesis by simp
  next
    case False
    then have "try_prefixes (a # alts) w = try_prefixes alts w" by auto
    with Cons.prems have "try_prefixes alts w = Some (g1, g2)" by (simp only:)
    then show ?thesis by (rule Cons.IH)
  qed
qed

lemma match_pattern_split: "match_pattern p w = Some (g1, g2) \<Longrightarrow> g1 @ g2 = w"
  by (cases p) (auto dest: backtrack_split try_prefixes_split)

lemma match_parts_two:
  "match_parts rdb [g1, g2] = Some ds \<Longrightarrow>
     \<exists>m1 m2. directMatch rdb g1 = Some m1 \<and> directMatch rdb g2 = Some m2
       \<and> ds = [component_item g1 m1, component_item g2 m2]"
  by (auto split: option.splits)

lemma compound_loop_sound:
  "compound_loop rdb w ps = Some (c, r, ds) \<Longrightarrow>
     \<exists>p1 p2 m1 m2. p1 @ p2 = w \<and> 3 \<le> length p1 \<and> 3 \<le> length p2
       \<and> directMatch rdb p1 = Some m1 \<and> directMatch rdb p2 = Some m2
       \<and> c = 75 / 100
       \<and> ds = [component_item p1 m1, component_item p2 m2]
       \<and> r = CompoundEntry
             \<lparr>english = w, chinese = join_item (chinese_of m1) @ join_item (chinese_of m2),
              pinyin = [], category = ''Compound'', priority = 4\<rparr>"
proof (induction ps)
  case Nil
  then show ?case by simp
next
  case (Cons p ps)
  show ?case
  proof (cases "compound_loop rdb w (p # ps) = compound_loop rdb w ps")
    case True
    with Cons show ?thesis by simp
  next
    case False
    then obtain g1 g2 where g: "match_pattern p w = Some (g1, g2)"
      by (cases "match_pattern p w") auto
    from False g have l: "3 \<le> length g1" "3 \<le> length g2"
      by (auto simp: Let_def split: if_splits)
    with False g obtain ds' where ds': "match_parts rdb [g1, g2] = Some ds'"
      by (cases "match_parts rdb [g1, g2]") (auto simp: Let_def)
    from match_parts_two[OF ds'] obtain m1 m2 where
      m: "directMatch rdb g1 = Some m1" "directMatch rdb g2 = Some m2"
         "ds' = [component_item g1 m1, component_item g2 m2]" by blast
    from Cons.prems g l m have "c = 75 / 100" "ds = ds'"
      "r = CompoundEntry
             \<lparr>english = w, chinese = join_item (chinese_of m1) @ join_item (chinese_of m2),
              pinyin = [], category = ''Compound'', priority = 4\<rparr>"
      by (simp_all add: Let_def component_item_def item_chinese_def)
    with match_pattern_split[OF g] l m show ?thesis by blast
  qed
qed

lemma strategies_sound:
  assumes "strategies rdb now word lw = Inr a"
  shows "normalized a = lw
    \<and> (found a \<longrightarrow> 0 < confidence a \<and> result a \<noteq> None)
    \<and> (matchType a = not_found \<longrightarrow> \<not> found a)
    \<and> (matchType a \<in> {inflection, prefixed, suffixed} \<longrightarrow> concat (map part (decomposition a)) = lw)"
proof (cases "directMatch rdb lw")
  case (Some dm)
  with assms show ?thesis by (auto simp: strategies_def)
next
  case d: None
  show ?thesis
  proof (cases "matchInflections rdb lw")
    case (Some m)
    obtain r ds where m: "m = (r, ds)" by (cases m)
    from matchInflections_parts[of rdb lw r ds] Some m assms d show ?thesis
      by (auto simp: strategies_def)
  next
    case i: None
    show ?thesis
    proof (cases "matchWithAffixes rdb lw")
      case (Some m)
      obtain ty c r ds where m: "m = (ty, c, r, ds)" by (cases m)
      from matchWithAffixes_sound[of rdb lw ty c r ds] Some m assms d i show ?thesis
        by (auto simp: strategies_def)
    next
      case x: None
      show ?thesis
      proof (cases "findSimilarWords rdb lw")
        case (Inl e)
        with assms d i x show ?thesis by (simp add: strategies_def)
      next
        case (Inr f)
        show ?thesis
        proof (cases f)
          case (Some m)
          obtain c r sg where m: "m = (c, r, sg)" by (cases m)
          from findSimilarWords_confidence[of rdb lw c r sg] Inr Some m
          have "7 / 10 \<le> c" by (simp add: threshold_def)
          then have "0 < c" by simp
          with Inr Some m assms d i x show ?thesis
            by (auto simp: strategies_def)
        next
          case None
          show ?thesis
          proof (cases "analyzeCompoundWord rdb lw")
            case (Some m)
            obtain c r ds where m: "m = (c, r, ds)" by (cases m)
            from analyzeCompoundWord_confidence[of rdb lw c r ds] Some m
            have "c = 75 / 100" by simp
            with Inr None Some m assms d i x show ?thesis
              by (auto simp: strategies_def)
          next
            case n: None
            with Inr None assms d i x show ?thesis
              by (auto simp: strategies_def)
          qed
        qed
      qed
    qed
  qed
qed

lemma reachable_cached:
  "reachable rdb c \<Longrightarrow> c k = Some a \<Longrightarrow>
     \<exists>now word. trim (toLowerCase word) = k \<and> strategies rdb now word k = Inr a"
proof (induction arbitrary: k a rule: reachable.induct)
  case fresh
  then show ?case by (simp add: new_cache_def)
next
  case (call c now word a' c')
  show ?case
  proof (cases "c (trim (toLowerCase word))")
    case None
    with call.hyps(2) have s: "strategies rdb now word (trim (toLowerCase word)) = Inr a'"
      and c': "c' = c(trim (toLowerCase word) \<mapsto> a')"
      by (auto simp: analyze_def Let_def split: sum.splits)
    show ?thesis
    proof (cases "k = trim (toLowerCase word)")
      case True
      with call.prems c' have "a = a'" by simp
      with s True show ?thesis by blast
    next
      case False
      with call.prems c' have "c k = Some a" by simp
      then show ?thesis by (rule call.IH)
    qed
  next
    case (Some b)
    with call.hyps(2) have "c' = c" by (simp add: analyze_def Let_def)
    with call.prems call.IH show ?thesis by blast
  qed
qed

lemma analyze_strategies:
  assumes "reachable rdb c" and "analyze rdb c now word = Inr (a, c')"
  shows "\<exists>now' word'. trim (toLowerCase word') = trim (toLowerCase word)
           \<and> strategies rdb now' word' (trim (toLowerCase word)) = Inr a"
proof (cases "c (trim (toLowerCase word))")
  case None
  with assms(2) have "strategies rdb now word (trim (toLowerCase word)) = Inr a"
    by (auto simp: analyze_def Let_def split: sum.splits)
  then show ?thesis by blast
next
  case (Some b)
  with assms(2) have "b = a" by (simp add: analyze_def Let_def)
  with Some assms(1) show ?thesis using reachable_cached by blast
qed

lemma analyze_new:
  "trim (toLowerCase w) = lw \<Longrightarrow> strategies rdb now w lw = Inr a
     \<Longrightarrow> analyze rdb new_cache now w = Inr (a, new_cache(lw \<mapsto> a))"
  by (simp add: analyze_def Let_def new_cache_def)

subsection \<open>What extractRootData builds\<close>

lemma index_of_no_key:
  "filter (\<lambda>e. key_of e = k) db = [] \<Longrightarrow>
     index_of db k = (if bucket db k = [] then None else Some (Index (bucket db k)))"
  by (simp add: index_of_def split: list.splits)

lemma index_of_key:
  "filter (\<lambda>e. key_of e = k) db \<noteq> [] \<Longrightarrow>
     index_of db k = Some (Entry (last (filter (\<lambda>e. key_of e = k) db)))"
  by (simp add: index_of_def split: list.splits)

lemma length_key_neq_letter_key: "length_key n \<noteq> letter_key s"
  by (simp add: length_key_def letter_key_def split: list.splits)

lemma push_index_index_of:
  assumes "push_index M k w = Inr M'" and "M k = index_of db k"
  shows "filter (\<lambda>e. key_of e = k) db = [] \<and> M' = M(k \<mapsto> Index (bucket db k @ [w]))"
proof (cases "filter (\<lambda>e. key_of e = k) db = []")
  case True
  with assms show ?thesis
    by (auto simp: push_index_def index_of_no_key split: if_splits)
next
  case False
  with assms show ?thesis
    by (simp add: push_index_def index_of_key)
qed

lemma index_word_step:
  assumes "index_word (index_of db) w = Inr m"
  shows "m = index_of (db @ [w])"
proof -
  define eng where "eng = key_of w"
  define kl where "kl = length_key (length eng)"
  define kt where "kt = letter_key eng"
  define m1 where "m1 = (index_of db)(eng \<mapsto> Entry w)"
  from assms obtain m2 where p1: "push_index m1 kl w = Inr m2" and p2: "push_index m2 kt w = Inr m"
    by (auto simp: index_word_def Let_def key_of_def eng_def kl_def kt_def m1_def split: sum.splits)
  have ne: "kl \<noteq> kt" by (simp add: kl_def kt_def length_key_neq_letter_key)
  have kl_eng: "kl \<noteq> eng"
  proof
    assume "kl = eng"
    then have "m1 kl = Some (Entry w)" by (simp add: m1_def)
    with p1 show False by (simp add: push_index_def)
  qed
  then have "m1 kl = index_of db kl" by (simp add: m1_def)
  from push_index_index_of[OF p1 this]
  have nk1: "filter (\<lambda>e. key_of e = kl) db = []" and m2: "m2 = m1(kl \<mapsto> Index (bucket db kl @ [w]))"
    by simp_all
  have kt_eng: "kt \<noteq> eng"
  proof
    assume "kt = eng"
    then have "m2 kt = Some (Entry w)" using ne by (simp add: m2 m1_def)
    with p2 show False by (simp add: push_index_def)
  qed
  then have "m2 kt = index_of db kt" using ne by (simp add: m2 m1_def)
  from push_index_index_of[OF p2 this]
  have nk2: "filter (\<lambda>e. key_of e = kt) db = []" and m: "m = m2(kt \<mapsto> Index (bucket db kt @ [w]))"
    by simp_all
  show ?thesis
  proof (rule ext)
    fix k
    consider (eng) "k = eng" | (kl) "k = kl" | (kt) "k = kt" | (other) "k \<noteq> eng" "k \<noteq> kl" "k \<noteq> kt"
      by blast
    then show "m k = index_of (db @ [w]) k"
    proof cases
      case eng
      then have "m k = Some (Entry w)" using kl_eng kt_eng by (simp add: m m2 m1_def)
      moreover have "filter (\<lambda>e. key_of e = k) (db @ [w]) = filter (\<lambda>e. key_of e = k) db @ [w]"
        using eng by (simp add: eng_def)
      then have "index_of (db @ [w]) k = Some (Entry w)"
        by (simp add: index_of_key)
      ultimately show ?thesis by simp
    next
      case kl
      then have "m k = Some (Index (bucket db kl @ [w]))" using ne by (simp add: m m2)
      moreover have "filter (\<lambda>e. key_of e = k) (db @ [w]) = []"
        using kl nk1 kl_eng by (simp add: eng_def)
      moreover have "bucket (db @ [w]) k = bucket db kl @ [w]"
        using kl by (simp add: bucket_def kl_def eng_def)
      ultimately show ?thesis by (simp add: index_of_no_key)
    next
      case kt
      then have "m k = Some (Index (bucket db kt @ [w]))" by (simp add: m)
      moreover have "filter (\<lambda>e. key_of e = k) (db @ [w]) = []"
        using kt nk2 kt_eng by (simp add: eng_def)
      moreover have "bucket (db @ [w]) k = bucket db kt @ [w]"
        using kt by (simp add: bucket_def kt_def eng_def)
      ultimately show ?thesis by (simp add: index_of_no_key)
    next
      case other
      then have "m k = index_of db k" by (simp add: m m2 m1_def)
      moreover have "filter (\<lambda>e. key_of e = k) (db @ [w]) = filter (\<lambda>e. key_of e = k) db"
        using other by (auto simp: eng_def)
      moreover have "bucket (db @ [w]) k = bucket db k"
        using other by (auto simp: bucket_def eng_def kl_def kt_def)
      ultimately have "index_of (db @ [w]) k = index_of db k"
        by (simp only: index_of_def)
      moreover note \<open>m k = index_of db k\<close>
      ultimately show ?thesis by simp
    qed
  qed
qed

lemma index_words_snoc:
  "index_words m (ws @ [w]) =
     (case index_words m ws of Inl e \<Rightarrow> Inl e | Inr m' \<Rightarrow> index_word m' w)"
  by (induction ws arbitrary: m) (auto split: sum.splits)

lemma index_of_Nil: "index_of [] = Map.empty"
  by (rule ext) (simp add: index_of_def bucket_def)

lemma extractRootData_index_of:
  "extractRootData db = Inr rdb \<Longrightarrow> rdb = index_of db"
proof (induction db arbitrary: rdb rule: rev_induct)
  case Nil
  then show ?case by (simp add: extractRootData_def index_of_Nil)
next
  case (snoc w ws)
  from snoc.prems obtain m' where a: "extractRootData ws = Inr m'" and b: "index_word m' w = Inr rdb"
    by (auto simp: extractRootData_def index_words_snoc split: sum.splits)
  from snoc.IH[OF a] b show ?case using index_word_step by blast
qed

lemma digit_inj: "a < 10 \<Longrightarrow> b < 10 \<Longrightarrow> digit a = digit b \<Longrightarrow> a = b"
proof -
  assume a: "a < 10" and b: "b < 10" and e: "digit a = digit b"
  from e have "(of_char (char_of (48 + a)) :: nat) = of_char (char_of (48 + b))"
    by (simp only: digit_def)
  then have "(48 + a) mod 256 = (48 + b) mod 256" by simp
  with a b show ?thesis by simp
qed

lemma string_of_nat_not_Nil: "string_of_nat n \<noteq> []"
  by (subst string_of_nat.simps) simp

lemma string_of_nat_inj: "string_of_nat n = string_of_nat m \<Longrightarrow> n = m"
proof (induction n arbitrary: m rule: string_of_nat.induct)
  case (1 n)
  show ?case
  proof (cases "n < 10")
    case n: True
    show ?thesis
    proof (cases "m < 10")
      case True
      with n "1.prems" have "[digit n] = [digit m]"
        by (simp add: string_of_nat.simps[of n] string_of_nat.simps[of m])
      with n True show ?thesis using digit_inj by simp
    next
      case False
      with n "1.prems" have "[digit n] = string_of_nat (m div 10) @ [digit (m mod 10)]"
        by (simp add: string_of_nat.simps[of n] string_of_nat.simps[of m])
      then have "string_of_nat (m div 10) = []" by simp
      then show ?thesis by (simp add: string_of_nat_not_Nil)
    qed
  next
    case n: False
    show ?thesis
    proof (cases "m < 10")
      case True
      with n "1.prems" have "string_of_nat (n div 10) @ [digit (n mod 10)] = [digit m]"
        by (simp add: string_of_nat.simps[of n] string_of_nat.simps[of m])
      then have "string_of_nat (n div 10) = []" by simp
      then show ?thesis by (simp add: string_of_nat_not_Nil)
    next
      case False
      with n "1.prems" have
        "string_of_nat (n div 10) @ [digit (n mod 10)] = string_of_nat (m div 10) @ [digit (m mod 10)]"
        by (simp add: string_of_nat.simps[of n] string_of_nat.simps[of m])
      then have d: "string_of_nat (n div 10) = string_of_nat (m div 10)"
        and r: "digit (n mod 10) = digit (m mod 10)" by simp_all
      from "1.IH"[OF n d] have "n div 10 = m div 10" .
      moreover from r have "n mod 10 = m mod 10" by (intro digit_inj) simp_all
      ultimately show ?thesis by (metis div_mult_mod_eq)
    qed
  qed
qed

lemma length_key_inj: "length_key n = length_key m \<Longrightarrow> n = m"
  by (simp add: length_key_def string_of_nat_inj)

lemma bucket_length_key:
  "bucket db (length_key n) = filter (\<lambda>e. length (key_of e) = n) db"
proof -
  have "\<And>e. (length_key (length (key_of e)) = length_key n \<or> letter_key (key_of e) = length_key n)
      = (length (key_of e) = n)"
    using length_key_inj length_key_neq_letter_key by metis
  then show ?thesis by (simp add: bucket_def)
qed

lemma index_key_length_key: "index_key (length_key n)"
  by (simp add: index_key_def length_key_def)

lemma index_key_letter_key: "index_key (letter_key s)"
  by (simp add: index_key_def letter_key_def split: list.splits)

text \<open>On a built index the words of a length are read without failure exactly when no
  entry is keyed by the name of that bucket.\<close>

lemma wordsOfLength_index_of:
  "wordsOfLength (index_of db) n =
     (if \<exists>e \<in> set db. key_of e = length_key n then Inl TypeError
      else Inr (filter (\<lambda>e. length (key_of e) = n) db))"
proof (cases "filter (\<lambda>e. key_of e = length_key n) db = []")
  case True
  then have "\<not> (\<exists>e \<in> set db. key_of e = length_key n)" by (simp add: filter_empty_conv)
  with True show ?thesis
    by (simp add: wordsOfLength_def index_of_no_key bucket_length_key)
next
  case False
  then have "\<exists>e \<in> set db. key_of e = length_key n" by (simp add: filter_empty_conv)
  with False show ?thesis
    by (simp add: wordsOfLength_def index_of_key)
qed

lemma collect_candidates_index_of:
  "collect_candidates (index_of db) w lens = Inr cs \<Longrightarrow> cs = pool db w lens"
proof (induction lens arbitrary: cs)
  case Nil
  then show ?case by (simp add: pool_def)
next
  case (Cons n lens)
  from Cons.prems obtain ws cs' where ws: "wordsOfLength (index_of db) n = Inr ws"
    and cs': "collect_candidates (index_of db) w lens = Inr cs'" and cs: "cs = similar_in w ws @ cs'"
    by (auto split: sum.splits)
  from ws have "ws = filter (\<lambda>e. length (key_of e) = n) db"
    by (simp add: wordsOfLength_index_of split: if_splits)
  with Cons.IH[OF cs'] cs show ?case by (simp add: pool_def)
qed

lemma collect_candidates_returns:
  "\<forall>n \<in> set lens. \<forall>e \<in> set db. key_of e \<noteq> length_key n \<Longrightarrow>
     collect_candidates (index_of db) w lens = Inr (pool db w lens)"
  by (induction lens) (simp_all add: pool_def wordsOfLength_index_of)

lemma plain_lexicon_key: "plain_lexicon db \<Longrightarrow> e \<in> set db \<Longrightarrow> \<not> index_key (key_of e)"
  by (simp add: plain_lexicon_def list_all_iff)

lemma plain_lexicon_no_key:
  "plain_lexicon db \<Longrightarrow> index_key k \<Longrightarrow> filter (\<lambda>e. key_of e = k) db = []"
  by (auto simp: filter_empty_conv dest: plain_lexicon_key)

lemma push_index_returns:
  "M k = index_of db k \<Longrightarrow> filter (\<lambda>e. key_of e = k) db = [] \<Longrightarrow>
     \<exists>M'. push_index M k w = Inr M'"
  by (simp add: push_index_def index_of_no_key)

lemma index_word_plain:
  assumes "plain_lexicon db" and "\<not> index_key (key_of w)"
  shows "\<exists>m. index_word (index_of db) w = Inr m"
proof -
  define eng where "eng = key_of w"
  define kl where "kl = length_key (length eng)"
  define kt where "kt = letter_key eng"
  define m1 where "m1 = (index_of db)(eng \<mapsto> Entry w)"
  have ikl: "index_key kl" and ikt: "index_key kt"
    by (simp_all add: kl_def kt_def index_key_length_key index_key_letter_key)
  with assms(2) have ne: "kl \<noteq> eng" "kt \<noteq> eng" by (auto simp: eng_def)
  have "kl \<noteq> kt" by (simp add: kl_def kt_def length_key_neq_letter_key)
  from ne have "m1 kl = index_of db kl" by (simp add: m1_def)
  from push_index_returns[of m1 kl db w, OF this plain_lexicon_no_key[OF assms(1) ikl]]
  obtain m2 where p1: "push_index m1 kl w = Inr m2" by blast
  from push_index_index_of[OF p1 \<open>m1 kl = index_of db kl\<close>]
  have "m2 = m1(kl \<mapsto> Index (bucket db kl @ [w]))" by simp
  with ne \<open>kl \<noteq> kt\<close> have "m2 kt = index_of db kt" by (simp add: m1_def)
  from push_index_returns[of m2 kt db w, OF this plain_lexicon_no_key[OF assms(1) ikt]]
  obtain m where "push_index m2 kt w = Inr m" by blast
  with p1 show ?thesis
    by (auto simp: index_word_def Let_def key_of_def eng_def kl_def kt_def m1_def)
qed

lemma extractRootData_plain: "plain_lexicon db \<Longrightarrow> extractRootData db = Inr (index_of db)"
proof (induction db rule: rev_induct)
  case Nil
  then show ?case by (simp add: extractRootData_def index_of_Nil)
next
  case (snoc w ws)
  from snoc.prems have p: "plain_lexicon ws" and k: "\<not> index_key (key_of w)"
    by (simp_all add: plain_lexicon_def)
  from index_word_plain[OF p k] obtain m where m: "index_word (index_of ws) w = Inr m" by blast
  from index_word_step[OF m] m snoc.IH[OF p] show ?case
    by (simp add: extractRootData_def index_words_snoc)
qed

lemma findSimilarWords_plain:
  assumes "plain_lexicon db"
  shows "findSimilarWords (index_of db) w =
     Inr (case sort_candidates (pool db w (lengthRange w)) of [] \<Rightarrow> None
          | best # rest \<Rightarrow> Some (snd best, fst best, map fst (take 4 rest)))"
proof -
  have "\<forall>n \<in> set (lengthRange w). \<forall>e \<in> set db. key_of e \<noteq> length_key n"
    using plain_lexicon_key[OF assms] index_key_length_key by metis
  from collect_candidates_returns[OF this] show ?thesis
    by (simp add: findSimilarWords_def split: list.splits)
qed

lemma set_similar_in:
  "fst ` set (similar_in w ws) = {e \<in> set ws. threshold \<le> calculateSimilarity w (key_of e)}"
  by (auto simp: similar_in_def key_of_def image_iff)

lemma set_pool:
  "fst ` set (pool db w lens) =
     {e \<in> set db. length (key_of e) \<in> set lens \<and> threshold \<le> calculateSimilarity w (key_of e)}"
proof -
  have "fst ` set (pool db w lens) =
      (\<Union>n \<in> set lens. fst ` set (similar_in w (filter (\<lambda>e. length (key_of e) = n) db)))"
    by (auto simp: pool_def)
  then show ?thesis by (auto simp: set_similar_in)
qed

lemma bucket_not_index_key: "\<not> index_key k \<Longrightarrow> bucket db k = []"
  by (auto simp: bucket_def index_key_def length_key_def letter_key_def filter_empty_conv
      split: list.splits)

lemma index_of_word:
  "\<not> index_key k \<Longrightarrow>
     index_of db k = (case filter (\<lambda>e. key_of e = k) db of [] \<Rightarrow> None
                      | x # xs \<Rightarrow> Some (Entry (last (x # xs))))"
  by (simp add: index_of_def bucket_not_index_key cong: list.case_cong)

subsection \<open>The small lexicon, evaluated\<close>

lemma lower_values:
  "toLowerCase ''cat'' = ''cat''" "toLowerCase ''Happy'' = ''happy''"
  "toLowerCase ''photo'' = ''photo''" "toLowerCase ''graphy'' = ''graphy''"
  by code_simp+

lemma example_keys:
  "key_of cat_entry = ''cat''" "key_of happy_entry = ''happy''"
  "key_of photo_entry = ''photo''" "key_of graphy_entry = ''graphy''"
  by (simp_all add: key_of_def cat_entry_def happy_entry_def photo_entry_def graphy_entry_def
      lower_values)

lemma example_index_word:
  "\<not> index_key k \<Longrightarrow>
     example_index k =
       (if k = ''cat'' then Some (Entry cat_entry)
        else if k = ''happy'' then Some (Entry happy_entry)
        else if k = ''photo'' then Some (Entry photo_entry)
        else if k = ''graphy'' then Some (Entry graphy_entry)
        else None)"
  by (simp add: example_index_def index_of_word example_lexicon_def example_keys)

lemma normalize_values:
  "trim (toLowerCase ''Cats'') = ''cats''" "trim (toLowerCase '' unhappy'') = ''unhappy''"
  by code_simp+

lemma strategies_cats: "strategies example_index 0 ''Cats'' ''cats'' = Inr cats_analysis"
  by (simp add: strategies_def directMatch_def example_index_word index_key_def
      matchInflections_def inflections_def endsWith_def slice_end_def getInflectionMeaning_def
      cat_entry_def cats_analysis_def Let_def)

lemma strategies_unhappy:
  "strategies example_index 7 '' unhappy'' ''unhappy'' = Inr unhappy_analysis"
  by (simp add: strategies_def directMatch_def example_index_word index_key_def
      matchInflections_def inflections_def endsWith_def slice_end_def
      matchWithAffixes_def prefixes_def startsWith_def slice_from_def getPrefixMeaning_def
      to_string_def happy_entry_def unhappy_analysis_def Let_def)

subsection \<open>The invariants of a result\<close>

text \<open>
  C2. Whatever the word, and whatever calls the analyzer has served before, a result that
  \<open>analyze\<close> returns with \<open>found\<close> set has a positive confidence and a result that is
  not null, and a result of match type \<open>not_found\<close> has \<open>found\<close> unset.
\<close>

theorem analyze_found_invariant:
  assumes "reachable rdb c" and "analyze rdb c now word = Inr (a, c')"
  shows "(found a \<longrightarrow> 0 < confidence a \<and> result a \<noteq> None)
       \<and> (matchType a = not_found \<longrightarrow> \<not> found a)"
  using analyze_strategies[OF assms] strategies_sound by blast

theorem analyze_found_invariant_witness:
  "analyze example_index new_cache 0 ''Cats'' =
     Inr (cats_analysis, new_cache(''cats'' \<mapsto> cats_analysis))
   \<and> found cats_analysis \<and> 0 < confidence cats_analysis \<and> result cats_analysis \<noteq> None
   \<and> matchType cats_analysis \<noteq> not_found"
proof -
  note a = analyze_new[OF normalize_values(1) strategies_cats]
  from analyze_found_invariant[OF reachable.fresh a] a show ?thesis
    by (simp add: cats_analysis_def)
qed

text \<open>
  C8. When the match type of a returned result is \<open>inflection\<close>, \<open>prefixed\<close> or
  \<open>suffixed\<close>, the parts of its decomposition, concatenated in order, are the normalized
  word, which is the trimmed lowercase input.
\<close>

theorem analyze_parts_concat:
  assumes "reachable rdb c" and "analyze rdb c now word = Inr (a, c')"
    and "matchType a \<in> {inflection, prefixed, suffixed}"
  shows "concat (map part (decomposition a)) = normalized a
       \<and> normalized a = trim (toLowerCase word)"
  using analyze_strategies[OF assms(1,2)] strategies_sound assms(3) by metis

theorem analyze_parts_concat_witness:
  "analyze example_index new_cache 7 '' unhappy'' =
     Inr (unhappy_analysis, new_cache(''unhappy'' \<mapsto> unhappy_analysis))
   \<and> matchType unhappy_analysis = prefixed
   \<and> concat (map part (decomposition unhappy_analysis)) = ''unhappy''
   \<and> normalized unhappy_analysis = ''unhappy''"
proof -
  note a = analyze_new[OF normalize_values(2) strategies_unhappy]
  have m: "matchType unhappy_analysis \<in> {inflection, prefixed, suffixed}"
    by (simp add: unhappy_analysis_def)
  from analyze_parts_concat[OF reachable.fresh a m] a show ?thesis
    by (simp add: unhappy_analysis_def)
qed

subsection \<open>More lexicons, evaluated\<close>

lemma similar_in_key_of:
  "similar_in w ws =
     filter (\<lambda>(c, s). threshold \<le> s) (map (\<lambda>c. (c, calculateSimilarity w (key_of c))) ws)"
  by (simp add: similar_in_def key_of_def)

lemma more_lower_values:
  "toLowerCase ''ox'' = ''ox''" "toLowerCase ''planet'' = ''planet''"
  "toLowerCase ''plane'' = ''plane''"
  "trim (toLowerCase ''fox'') = ''fox''" "trim (toLowerCase ''plan'') = ''plan''"
  by code_simp+

lemma more_keys:
  "key_of ox_entry = ''ox''" "key_of planet_entry = ''planet''" "key_of plane_entry = ''plane''"
  by (simp_all add: key_of_def ox_entry_def planet_entry_def plane_entry_def more_lower_values)

lemma plain_examples:
  "plain_lexicon [ox_entry]" "plain_lexicon [planet_entry, plane_entry]"
  "plain_lexicon example_lexicon"
  by (simp_all add: plain_lexicon_def example_lexicon_def more_keys example_keys index_key_def)

lemma sim_values:
  "calculateSimilarity ''fox'' ''ox'' = 9 / 10"
  "calculateSimilarity ''plan'' ''planet'' = 9 / 10"
  "calculateSimilarity ''plan'' ''plane'' = 9 / 10"
  by (simp_all add: calculateSimilarity_def)

lemma pool_fox: "pool [ox_entry] ''fox'' (lengthRange ''fox'') = []"
  by (simp add: pool_def lengthRange_def more_keys similar_in_key_of)

lemma pool_plan:
  "pool [planet_entry, plane_entry] ''plan'' (lengthRange ''plan'') =
     [(plane_entry, 9 / 10), (planet_entry, 9 / 10)]"
  by (simp add: pool_def lengthRange_def more_keys similar_in_key_of sim_values threshold_def)

lemma similar_plan:
  "findSimilarWords (index_of planes_lexicon) ''plan'' =
     Inr (Some (9 / 10, plane_entry, [planet_entry]))"
  by (simp add: findSimilarWords_plain plain_examples pool_plan sort_candidates_def
      planes_lexicon_def)

lemma strategies_fox: "strategies (index_of ox_lexicon) 0 ''fox'' ''fox'' = Inr fox_analysis"
  by (simp add: strategies_def directMatch_def index_of_word index_key_def ox_lexicon_def more_keys
      matchInflections_def inflections_def endsWith_def
      matchWithAffixes_def prefixes_def suffixes_def startsWith_def
      findSimilarWords_plain plain_examples pool_fox sort_candidates_def
      analyzeCompoundWord_def fox_analysis_def Let_def)

lemma strategies_plan:
  "strategies (index_of planes_lexicon) 0 ''plan'' ''plan'' = Inr plan_analysis"
  by (simp add: strategies_def directMatch_def index_of_word index_key_def planes_lexicon_def
      more_keys matchInflections_def inflections_def endsWith_def
      matchWithAffixes_def prefixes_def suffixes_def startsWith_def
      similar_plan[unfolded planes_lexicon_def] plan_analysis_def Let_def)

lemma photography:
  "analyzeCompoundWord example_index ''photography'' =
     Some (75 / 100,
       CompoundEntry \<lparr>english = ''photography'', chinese = [20809, 20889], pinyin = [],
         category = ''Compound'', priority = 4\<rparr>,
       [component_item ''photo'' (Entry photo_entry),
        component_item ''graphy'' (Entry graphy_entry)])"
  by (simp add: analyzeCompoundWord_def patterns_def is_word_char_def toLowerCase_def
      toLowerChar_def directMatch_def example_index_word index_key_def Let_def item_chinese_def
      join_item_def component_item_def photo_entry_def graphy_entry_def)

subsection \<open>The compound strategy\<close>

text \<open>
  C5. When \<open>analyzeCompoundWord\<close> returns a match, the word splits into two parts of at
  least three characters each, both parts have a direct match, the confidence is 0.75, the
  decomposition is the two parts in word order, and the result is a synthesized entry of
  category Compound whose \<open>chinese\<close> is the gloss of the first part followed by the gloss
  of the second.
\<close>

theorem analyzeCompoundWord_sound:
  assumes "analyzeCompoundWord rdb w = Some (c, r, ds)"
  shows "\<exists>p1 p2 m1 m2. p1 @ p2 = w \<and> 3 \<le> length p1 \<and> 3 \<le> length p2
       \<and> directMatch rdb p1 = Some m1 \<and> directMatch rdb p2 = Some m2
       \<and> c = 75 / 100
       \<and> ds = [component_item p1 m1, component_item p2 m2]
       \<and> r = CompoundEntry
             \<lparr>english = w, chinese = join_item (chinese_of m1) @ join_item (chinese_of m2),
              pinyin = [], category = ''Compound'', priority = 4\<rparr>"
proof -
  from assms have "compound_loop rdb w patterns = Some (c, r, ds)"
    by (simp add: analyzeCompoundWord_def split: if_splits)
  then show ?thesis by (rule compound_loop_sound)
qed

theorem analyzeCompoundWord_sound_witness:
  "analyzeCompoundWord example_index ''photography'' =
     Some (75 / 100,
       CompoundEntry \<lparr>english = ''photography'', chinese = [20809, 20889], pinyin = [],
         category = ''Compound'', priority = 4\<rparr>,
       [component_item ''photo'' (Entry photo_entry),
        component_item ''graphy'' (Entry graphy_entry)])
   \<and> directMatch example_index ''photo'' = Some (Entry photo_entry)
   \<and> directMatch example_index ''graphy'' = Some (Entry graphy_entry)"
proof -
  from analyzeCompoundWord_sound[OF photography] obtain p1 p2 m1 m2 where
    d: "directMatch example_index p1 = Some m1" "directMatch example_index p2 = Some m2"
    and ds: "[component_item ''photo'' (Entry photo_entry),
              component_item ''graphy'' (Entry graphy_entry)]
             = [component_item p1 m1, component_item p2 m2]"
    by blast
  from ds have "p1 = ''photo''" "m1 = Entry photo_entry" "p2 = ''graphy''"
    "m2 = Entry graphy_entry"
    by (simp_all add: component_item_def)
  with d photography show ?thesis by simp
qed

subsection \<open>The similar-word search\<close>

text \<open>
  C7, as amended. On an index that \<open>extractRootData\<close> built, when the search over the
  length buckets completes, its candidates are exactly the lexicon entries whose key has a
  length from \<open>max 3 (length w - 3)\<close> to \<open>length w + 3\<close> and whose similarity to the word
  reaches the threshold. The window has the floor 3: entries of length 1 or 2 are never
  looked at.
\<close>

theorem fuzzy_window:
  assumes "extractRootData db = Inr rdb"
    and "collect_candidates rdb w (lengthRange w) = Inr cs"
  shows "set (map fst cs) =
     {e \<in> set db. max 3 (length w - 3) \<le> length (key_of e) \<and> length (key_of e) \<le> length w + 3
        \<and> threshold \<le> calculateSimilarity w (key_of e)}"
proof -
  from extractRootData_index_of[OF assms(1)] assms(2)
  have "cs = pool db w (lengthRange w)" using collect_candidates_index_of by simp
  then show ?thesis by (auto simp: set_pool lengthRange_def)
qed

theorem fuzzy_window_witness:
  "extractRootData planes_lexicon = Inr (index_of planes_lexicon)
   \<and> collect_candidates (index_of planes_lexicon) ''plan'' (lengthRange ''plan'') =
       Inr [(plane_entry, 9 / 10), (planet_entry, 9 / 10)]
   \<and> {plane_entry, planet_entry} =
       {e \<in> set planes_lexicon. max 3 (length ''plan'' - 3) \<le> length (key_of e)
          \<and> length (key_of e) \<le> length ''plan'' + 3
          \<and> threshold \<le> calculateSimilarity ''plan'' (key_of e)}"
proof -
  have p: "plain_lexicon planes_lexicon" by (simp add: planes_lexicon_def plain_examples)
  note b = extractRootData_plain[OF p]
  have "\<forall>n \<in> set (lengthRange ''plan''). \<forall>e \<in> set planes_lexicon. key_of e \<noteq> length_key n"
    using plain_lexicon_key[OF p] index_key_length_key by metis
  from collect_candidates_returns[OF this]
  have c: "collect_candidates (index_of planes_lexicon) ''plan'' (lengthRange ''plan'') =
       Inr [(plane_entry, 9 / 10), (planet_entry, 9 / 10)]"
    by (simp add: planes_lexicon_def pool_plan)
  from fuzzy_window[OF b c] b c show ?thesis by auto
qed

text \<open>
  C7 as stated fails: the entry \<open>ox\<close> has length 2, within 3 of the length of \<open>fox\<close>, and
  its similarity to \<open>fox\<close> is 0.9, yet the search for \<open>fox\<close> collects no candidate and the
  analysis finds nothing.
\<close>

theorem fuzzy_window_counterexample:
  "extractRootData ox_lexicon = Inr (index_of ox_lexicon)
   \<and> ox_entry \<in> set ox_lexicon
   \<and> length (key_of ox_entry) = 2 \<and> length ''fox'' = 3
   \<and> calculateSimilarity ''fox'' (key_of ox_entry) = 9 / 10
   \<and> collect_candidates (index_of ox_lexicon) ''fox'' (lengthRange ''fox'') = Inr []
   \<and> map_sum id fst (analyze (index_of ox_lexicon) new_cache 0 ''fox'') = Inr fox_analysis
   \<and> found fox_analysis = False"
proof -
  have p: "plain_lexicon ox_lexicon" by (simp add: ox_lexicon_def plain_examples)
  have "\<forall>n \<in> set (lengthRange ''fox''). \<forall>e \<in> set ox_lexicon. key_of e \<noteq> length_key n"
    using plain_lexicon_key[OF p] index_key_length_key by metis
  from collect_candidates_returns[OF this]
  have "collect_candidates (index_of ox_lexicon) ''fox'' (lengthRange ''fox'') = Inr []"
    by (simp add: ox_lexicon_def pool_fox)
  with extractRootData_plain[OF p] analyze_new[OF more_lower_values(4) strategies_fox]
  show ?thesis
    by (simp add: more_keys sim_values ox_lexicon_def fox_analysis_def)
qed

text \<open>
  C6, as amended. On an index that \<open>extractRootData\<close> built, when the search returns, its
  answer is read off the candidates ranked by a stable sort, descending by similarity: the
  first is the match and its similarity the confidence, the next up to four are the
  suggestions. Candidates of equal similarity keep the order in which the search collected
  them, which is by length of the key, shortest first, and in lexicon order within one
  length (the order of \<open>pool\<close>).
\<close>

theorem similar_ranking:
  assumes "extractRootData db = Inr rdb" and "findSimilarWords rdb w = Inr res"
  shows "let candidates = pool db w (lengthRange w); ranked = sort_candidates candidates in
      res = (case ranked of [] \<Rightarrow> None
             | best # rest \<Rightarrow> Some (snd best, fst best, map fst (take 4 rest)))
    \<and> sorted (map (\<lambda>(e, s). - s) ranked)
    \<and> (\<forall>x. filter (\<lambda>(e, s). s = x) ranked = filter (\<lambda>(e, s). s = x) candidates)
    \<and> set ranked = set candidates \<and> length ranked = length candidates"
proof -
  from assms(2) obtain cs where cs: "collect_candidates rdb w (lengthRange w) = Inr cs"
    by (auto simp: findSimilarWords_def split: sum.splits)
  with extractRootData_index_of[OF assms(1)] have p: "cs = pool db w (lengthRange w)"
    using collect_candidates_index_of by simp
  from assms(2) cs have r: "res = (case sort_candidates cs of [] \<Rightarrow> None
             | best # rest \<Rightarrow> Some (snd best, fst best, map fst (take 4 rest)))"
    by (auto simp: findSimilarWords_def split: list.splits)
  have s: "sorted (map (\<lambda>(e, s). - s) (sort_candidates cs))"
    by (simp add: sort_candidates_def)
  have t: "\<And>x. filter (\<lambda>(e, s). s = x) (sort_candidates cs) = filter (\<lambda>(e, s). s = x) cs"
  proof -
    fix x :: rat
    have "(\<lambda>(e :: entry, s). s = x) = (\<lambda>y. (case y of (e, s) \<Rightarrow> - s) = - x)" by auto
    then show "filter (\<lambda>(e, s). s = x) (sort_candidates cs) = filter (\<lambda>(e, s). s = x) cs"
      by (simp add: sort_candidates_def sort_key_stable)
  qed
  from r s t p show ?thesis by (simp add: Let_def sort_candidates_def)
qed

theorem similar_ranking_witness:
  "extractRootData planes_lexicon = Inr (index_of planes_lexicon)
   \<and> findSimilarWords (index_of planes_lexicon) ''plan'' =
       Inr (Some (9 / 10, plane_entry, [planet_entry]))
   \<and> sort_candidates (pool planes_lexicon ''plan'' (lengthRange ''plan'')) =
       [(plane_entry, 9 / 10), (planet_entry, 9 / 10)]"
proof -
  have p: "plain_lexicon planes_lexicon" by (simp add: planes_lexicon_def plain_examples)
  from similar_ranking[OF extractRootData_plain[OF p] similar_plan]
    extractRootData_plain[OF p] similar_plan
  show ?thesis by (simp add: planes_lexicon_def pool_plan sort_candidates_def)
qed

text \<open>
  C6 as stated fails on the tie-break: \<open>planet\<close> comes before \<open>plane\<close> in the lexicon and
  both have similarity 0.9 to \<open>plan\<close>, yet the match is \<open>plane\<close>, the shorter one, and
  \<open>planet\<close> is the suggestion.
\<close>

theorem similar_ranking_counterexample:
  "extractRootData planes_lexicon = Inr (index_of planes_lexicon)
   \<and> planes_lexicon = [planet_entry, plane_entry]
   \<and> calculateSimilarity ''plan'' (key_of planet_entry) = 9 / 10
   \<and> calculateSimilarity ''plan'' (key_of plane_entry) = 9 / 10
   \<and> map_sum id fst (analyze (index_of planes_lexicon) new_cache 0 ''plan'') = Inr plan_analysis
   \<and> result plan_analysis = Some (Entry plane_entry)
   \<and> suggestions plan_analysis = [planet_entry]
   \<and> plane_entry \<noteq> planet_entry"
proof -
  have p: "plain_lexicon planes_lexicon" by (simp add: planes_lexicon_def plain_examples)
  have d: "plane_entry \<noteq> planet_entry" by (simp add: plane_entry_def planet_entry_def)
  have r: "result plan_analysis = Some (Entry plane_entry)"
    "suggestions plan_analysis = [planet_entry]"
    by (simp_all add: plan_analysis_def)
  from extractRootData_plain[OF p] analyze_new[OF more_lower_values(5) strategies_plan] d r
  show ?thesis
    by (simp add: more_keys sim_values planes_lexicon_def)
qed

subsection \<open>Results through the cache\<close>

text \<open>What every run of the cascade on a normalized word satisfies, every result that
  \<open>analyze\<close> returns for that word satisfies, served from the cache or not.\<close>

lemma analyze_returns:
  assumes "reachable rdb c" and "trim (toLowerCase word) = lw"
    and "\<And>t x. \<exists>a. strategies rdb t x lw = Inr a \<and> P a"
  shows "\<exists>a c'. analyze rdb c now word = Inr (a, c') \<and> P a"
proof (cases "c lw")
  case None
  from assms(3) obtain a where "strategies rdb now word lw = Inr a" "P a" by blast
  with None assms(2) show ?thesis by (auto simp: analyze_def Let_def)
next
  case (Some b)
  from reachable_cached[OF assms(1) Some] obtain t x where "strategies rdb t x lw = Inr b"
    by blast
  moreover from assms(3) obtain a where "strategies rdb t x lw = Inr a" "P a" by blast
  ultimately have "P b" by simp
  with Some assms(2) show ?thesis by (auto simp: analyze_def Let_def)
qed

text \<open>On an index built from a lexicon without keys of the shape of an index key no call
  raises.\<close>

lemma strategies_returns_plain:
  "plain_lexicon db \<Longrightarrow> \<exists>a. strategies (index_of db) t x lw = Inr a"
  by (simp add: strategies_def Let_def findSimilarWords_plain
      split: option.splits prod.splits list.splits)

lemma analyze_never_raises:
  assumes "plain_lexicon db" and "reachable (index_of db) c"
  shows "\<exists>a c'. analyze (index_of db) c now w = Inr (a, c')"
proof -
  have "\<exists>a c'. analyze (index_of db) c now w = Inr (a, c') \<and> True"
    by (rule analyze_returns[OF assms(2) refl]) (simp add: strategies_returns_plain[OF assms(1)])
  then show ?thesis by simp
qed

subsection \<open>The order of the inflections\<close>

lemma endsWith_es_s: "endsWith W ''es'' \<Longrightarrow> endsWith W ''s''"
proof -
  assume a: "endsWith W ''es''"
  then have l: "Suc (Suc 0) \<le> length W" and d: "drop (length W - Suc (Suc 0)) W = ''es''"
    by (simp_all add: endsWith_def)
  from l have e: "length W - Suc 0 = Suc 0 + (length W - Suc (Suc 0))" by arith
  have "drop (Suc 0) (drop (length W - Suc (Suc 0)) W) = drop (length W - Suc 0) W"
    unfolding e by (simp only: drop_drop)
  with d have "drop (length W - Suc 0) W = ''s''" by simp
  with l show ?thesis by (simp add: endsWith_def)
qed

lemma strategies_inflection_s:
  assumes "endsWith W ''es''" and "directMatch rdb W = None"
    and "directMatch rdb (slice_end W 1) = Some m"
  shows "strategies rdb t x W =
     Inr \<lparr>original = x, normalized = W, found = True, confidence = 95 / 100,
          matchType = inflection, result = Some m,
          decomposition =
            [\<lparr>part = slice_end W 1, ptype = base, gloss = Some (chinese_of m),
              meaning = None, matched = None\<rparr>,
             \<lparr>part = ''s'', ptype = inflection_part,
              gloss = Some (Some (getInflectionMeaning ''s'')),
              meaning = None, matched = None\<rparr>],
          suggestions = [], timestamp = t\<rparr>"
proof -
  from endsWith_es_s[OF assms(1)] assms(3)
  have "matchInflections rdb W =
     Some (m, [\<lparr>part = slice_end W 1, ptype = base, gloss = Some (chinese_of m),
              meaning = None, matched = None\<rparr>,
             \<lparr>part = ''s'', ptype = inflection_part,
              gloss = Some (Some (getInflectionMeaning ''s'')),
              meaning = None, matched = None\<rparr>])"
    by (simp add: matchInflections_def inflections_def Let_def)
  with assms(2) show ?thesis by (simp add: strategies_def)
qed

text \<open>
  C4, as amended. The inflections are tried in the order of the table, \<open>s\<close> first: for a
  word that ends in \<open>es\<close>, is not itself in the index, and whose stem without the final
  \<open>s\<close> is in the index, \<open>analyze\<close> returns an inflection match of confidence 0.95 on that
  stem, with the parts stem and \<open>s\<close>, whether the stem without \<open>es\<close> is in the index or
  not.
\<close>

theorem inflection_order:
  assumes "reachable rdb c" and "trim (toLowerCase word) = W"
    and "endsWith W ''es''" and "directMatch rdb W = None"
    and "directMatch rdb (slice_end W 1) = Some m"
  shows "\<exists>a c'. analyze rdb c now word = Inr (a, c')
     \<and> found a \<and> matchType a = inflection \<and> confidence a = 95 / 100 \<and> result a = Some m
     \<and> map part (decomposition a) = [slice_end W 1, ''s'']"
  by (rule analyze_returns[OF assms(1,2)]) (simp add: strategies_inflection_s[OF assms(3-5)])


lemma axes_values:
  "toLowerCase ''ax'' = ''ax''" "toLowerCase ''axe'' = ''axe''"
  "trim (toLowerCase ''axes'') = ''axes''"
  "trim (toLowerCase []) = []" "trim (toLowerCase ''  '') = []"
  by code_simp+

lemma axes_keys: "key_of ax_entry = ''ax''" "key_of axe_entry = ''axe''"
  by (simp_all add: key_of_def ax_entry_def axe_entry_def axes_values)

lemma axes_plain: "plain_lexicon axes_lexicon"
  by (simp add: plain_lexicon_def axes_lexicon_def axes_keys index_key_def)

lemma axes_slices: "slice_end ''axes'' 1 = ''axe''" "slice_end ''axes'' 2 = ''ax''"
  by (simp_all add: slice_end_def)

lemma axes_index:
  "directMatch (index_of axes_lexicon) ''axes'' = None"
  "directMatch (index_of axes_lexicon) ''axe'' = Some (Entry axe_entry)"
  "directMatch (index_of axes_lexicon) ''ax'' = Some (Entry ax_entry)"
  by (simp_all add: directMatch_def index_of_word index_key_def axes_lexicon_def axes_keys)

lemma strategies_axes: "strategies (index_of axes_lexicon) 0 ''axes'' ''axes'' = Inr axes_analysis"
  by (simp add: strategies_def matchInflections_def inflections_def endsWith_def
      slice_end_def axes_index getInflectionMeaning_def axe_entry_def axes_analysis_def Let_def)

theorem inflection_order_witness:
  "analyze (index_of axes_lexicon) new_cache 0 ''axes'' =
     Inr (axes_analysis, new_cache(''axes'' \<mapsto> axes_analysis))
   \<and> endsWith ''axes'' ''es''
   \<and> matchType axes_analysis = inflection \<and> confidence axes_analysis = 95 / 100
   \<and> result axes_analysis = Some (Entry axe_entry)
   \<and> map part (decomposition axes_analysis) = [''axe'', ''s'']"
proof -
  have e: "endsWith ''axes'' ''es''" by (simp add: endsWith_def)
  note a = analyze_new[OF axes_values(3) strategies_axes]
  have s: "directMatch (index_of axes_lexicon) (slice_end ''axes'' 1) = Some (Entry axe_entry)"
    by (simp only: axes_slices axes_index)
  from inflection_order[OF reachable.fresh axes_values(3) e axes_index(1) s, of 0] a e
  show ?thesis by (simp add: axes_analysis_def)
qed

text \<open>
  C4 as stated fails: \<open>axes\<close> ends in \<open>es\<close>, both \<open>ax\<close> and \<open>axe\<close> are in the lexicon,
  and the match is \<open>axe\<close>, the stem without \<open>s\<close>, not \<open>ax\<close>.
\<close>

theorem inflection_order_counterexample:
  "extractRootData axes_lexicon = Inr (index_of axes_lexicon)
   \<and> endsWith ''axes'' ''es''
   \<and> directMatch (index_of axes_lexicon) (slice_end ''axes'' 2) = Some (Entry ax_entry)
   \<and> directMatch (index_of axes_lexicon) (slice_end ''axes'' 1) = Some (Entry axe_entry)
   \<and> map_sum id fst (analyze (index_of axes_lexicon) new_cache 0 ''axes'') = Inr axes_analysis
   \<and> result axes_analysis = Some (Entry axe_entry)
   \<and> axe_entry \<noteq> ax_entry"
proof -
  have e: "endsWith ''axes'' ''es''" by (simp add: endsWith_def)
  have d: "axe_entry \<noteq> ax_entry" by (simp add: axe_entry_def ax_entry_def)
  have r: "result axes_analysis = Some (Entry axe_entry)" by (simp add: axes_analysis_def)
  from extractRootData_plain[OF axes_plain] analyze_new[OF axes_values(3) strategies_axes]
    axes_index e d r
  show ?thesis by (simp add: slice_end_def)
qed

subsection \<open>The empty word\<close>

lemma length_key_3: "length_key 3 = ''length_3''"
  by code_simp

lemma str_includes_Nil: "str_includes s []"
  by (cases s) simp_all

lemma calculateSimilarity_Nil: "k \<noteq> [] \<Longrightarrow> calculateSimilarity [] k = 9 / 10"
  by (simp add: calculateSimilarity_def str_includes_Nil)

lemma similar_in_Nil:
  "\<forall>e \<in> set ws. key_of e \<noteq> [] \<Longrightarrow> similar_in [] ws = map (\<lambda>c. (c, 9 / 10)) ws"
  by (induction ws) (simp_all add: similar_in_key_of calculateSimilarity_Nil threshold_def)

lemma sort_candidates_const: "sort_candidates (map (\<lambda>c. (c, q)) ws) = map (\<lambda>c. (c, q)) ws"
proof -
  have "sorted (map (\<lambda>(c, s). - s) (map (\<lambda>c. (c, q)) ws))"
    by (induction ws) simp_all
  then show ?thesis unfolding sort_candidates_def by (rule sort_key_id_if_sorted)
qed

lemma findSimilarWords_Nil:
  assumes "\<forall>e \<in> set db. key_of e \<noteq> ''length_3''"
  shows "findSimilarWords (index_of db) [] =
     Inr (case filter (\<lambda>e. length (key_of e) = 3) db of [] \<Rightarrow> None
          | e # es \<Rightarrow> Some (9 / 10, e, take 4 es))"
proof -
  define ws where "ws = filter (\<lambda>e. length (key_of e) = 3) db"
  have r: "lengthRange [] = [3]" by (simp add: lengthRange_def)
  from assms have w: "wordsOfLength (index_of db) 3 = Inr ws"
    by (simp add: wordsOfLength_index_of length_key_3 ws_def)
  have "\<forall>e \<in> set ws. key_of e \<noteq> []" by (auto simp: ws_def)
  from similar_in_Nil[OF this] w
  have "collect_candidates (index_of db) [] [3] = Inr (map (\<lambda>c. (c, 9 / 10)) ws)"
    by simp
  then have "findSimilarWords (index_of db) [] =
     Inr (case map (\<lambda>c. (c, 9 / 10 :: rat)) ws of [] \<Rightarrow> None
          | best # rest \<Rightarrow> Some (snd best, fst best, map fst (take 4 rest)))"
    by (simp add: findSimilarWords_def r sort_candidates_const split: list.splits)
  also have "\<dots> = Inr (case ws of [] \<Rightarrow> None | e # es \<Rightarrow> Some (9 / 10, e, take 4 es))"
    by (cases ws) (simp_all add: take_map comp_def)
  finally show ?thesis by (simp add: ws_def)
qed

lemma strategies_Nil:
  assumes "\<forall>e \<in> set db. key_of e \<noteq> ''length_3''"
  shows "\<exists>a. strategies (index_of db) t x [] = Inr a \<and> normalized a = []
     \<and> (if \<exists>e \<in> set db. key_of e = [] then found a \<and> matchType a = direct
         else case filter (\<lambda>e. length (key_of e) = 3) db of
                [] \<Rightarrow> \<not> found a \<and> confidence a = 0 \<and> matchType a = not_found
                        \<and> result a = None
              | e # es \<Rightarrow> found a \<and> confidence a = 9 / 10 \<and> matchType a = similar
                        \<and> result a = Some (Entry e))"
proof (cases "\<exists>e \<in> set db. key_of e = []")
  case True
  then have "filter (\<lambda>e. key_of e = []) db \<noteq> []" by (simp add: filter_empty_conv)
  then have "directMatch (index_of db) [] \<noteq> None" by (simp add: directMatch_def index_of_key)
  with True show ?thesis by (auto simp: strategies_def)
next
  case False
  then have "filter (\<lambda>e. key_of e = []) db = []" by (simp add: filter_empty_conv)
  then have d: "directMatch (index_of db) [] = None"
    by (simp add: directMatch_def index_of_word index_key_def)
  have i: "matchInflections (index_of db) [] = None"
    by (simp add: matchInflections_def inflections_def endsWith_def)
  have x: "matchWithAffixes (index_of db) [] = None"
    by (simp add: matchWithAffixes_def prefixes_def suffixes_def)
  have c: "analyzeCompoundWord (index_of db) [] = None"
    by (simp add: analyzeCompoundWord_def)
  from False d i x c findSimilarWords_Nil[OF assms] show ?thesis
    by (cases "filter (\<lambda>e. length (key_of e) = 3) db") (simp_all add: strategies_def)
qed

text \<open>
  C3, as amended. On an index that \<open>extractRootData\<close> built from a lexicon with no entry
  keyed \<open>length_3\<close>, analyzing a word that normalizes to the empty string always returns a
  result. The result is a direct match when an entry has the empty key. Otherwise it is
  the not-found result (\<open>found\<close> unset, confidence 0) when the lexicon has no entry of
  length 3, and a similar match of confidence 0.9 on the first entry of length 3 when it
  has one: the empty string is contained in every string.
\<close>

theorem analyze_empty:
  assumes "extractRootData db = Inr rdb" and "reachable rdb c"
    and "trim (toLowerCase word) = []"
    and "\<forall>e \<in> set db. key_of e \<noteq> ''length_3''"
  shows "\<exists>a c'. analyze rdb c now word = Inr (a, c') \<and> normalized a = []
     \<and> (if \<exists>e \<in> set db. key_of e = [] then found a \<and> matchType a = direct
         else case filter (\<lambda>e. length (key_of e) = 3) db of
                [] \<Rightarrow> \<not> found a \<and> confidence a = 0 \<and> matchType a = not_found
                        \<and> result a = None
              | e # es \<Rightarrow> found a \<and> confidence a = 9 / 10 \<and> matchType a = similar
                        \<and> result a = Some (Entry e))"
proof -
  from extractRootData_index_of[OF assms(1)] have r: "rdb = index_of db" .
  show ?thesis
    by (rule analyze_returns[OF assms(2,3)]) (simp only: r strategies_Nil[OF assms(4)])
qed


lemma pool_empty_word:
  "pool example_lexicon [] (lengthRange []) = [(cat_entry, 9 / 10)]"
  "pool [planet_entry, plane_entry] [] (lengthRange []) = []"
  by (simp_all add: pool_def lengthRange_def example_lexicon_def example_keys more_keys
      similar_in_key_of calculateSimilarity_Nil threshold_def)

lemma similar_empty_word:
  "findSimilarWords example_index [] = Inr (Some (9 / 10, cat_entry, []))"
  by (simp add: example_index_def findSimilarWords_plain plain_examples pool_empty_word
      sort_candidates_def)

lemma strategies_empty_word:
  "strategies example_index 0 [] [] = Inr empty_analysis"
  "strategies example_index 0 ''  '' [] = Inr (empty_analysis\<lparr>original := ''  ''\<rparr>)"
  by (simp_all add: strategies_def directMatch_def example_index_word index_key_def
      matchInflections_def inflections_def endsWith_def
      matchWithAffixes_def prefixes_def suffixes_def
      similar_empty_word empty_analysis_def Let_def)

lemma strategies_blank_planes:
  "strategies (index_of planes_lexicon) 0 ''  '' [] = Inr blank_analysis"
  by (simp add: strategies_def directMatch_def index_of_word index_key_def planes_lexicon_def
      more_keys matchInflections_def inflections_def endsWith_def
      matchWithAffixes_def prefixes_def suffixes_def
      findSimilarWords_plain plain_examples pool_empty_word
      sort_candidates_def analyzeCompoundWord_def blank_analysis_def Let_def)

theorem analyze_empty_witness:
  "extractRootData planes_lexicon = Inr (index_of planes_lexicon)
   \<and> analyze (index_of planes_lexicon) new_cache 0 ''  '' =
       Inr (blank_analysis, new_cache([] \<mapsto> blank_analysis))
   \<and> filter (\<lambda>e. length (key_of e) = 3) planes_lexicon = []
   \<and> found blank_analysis = False \<and> confidence blank_analysis = 0
   \<and> matchType blank_analysis = not_found"
proof -
  have p: "plain_lexicon planes_lexicon" by (simp add: planes_lexicon_def plain_examples)
  have h: "\<forall>e \<in> set planes_lexicon. key_of e \<noteq> ''length_3''"
    by (simp add: planes_lexicon_def more_keys)
  note b = extractRootData_plain[OF p]
  note a = analyze_new[OF axes_values(5) strategies_blank_planes]
  from analyze_empty[OF b reachable.fresh axes_values(5) h, of 0] a b
  show ?thesis by (simp add: planes_lexicon_def more_keys blank_analysis_def)
qed

text \<open>
  C3 as stated fails: the small lexicon has the entry \<open>cat\<close> of length 3, and the empty
  word, like a word of two spaces, is answered with a similar match on \<open>cat\<close> of
  confidence 0.9.
\<close>

theorem analyze_empty_counterexample:
  "extractRootData example_lexicon = Inr example_index
   \<and> map_sum id fst (analyze example_index new_cache 0 []) = Inr empty_analysis
   \<and> map_sum id fst (analyze example_index new_cache 0 ''  '') =
       Inr (empty_analysis\<lparr>original := ''  ''\<rparr>)
   \<and> found empty_analysis = True \<and> confidence empty_analysis = 9 / 10
   \<and> matchType empty_analysis = similar"
proof -
  from extractRootData_plain[OF plain_examples(3)]
    analyze_new[OF axes_values(4) strategies_empty_word(1)]
    analyze_new[OF axes_values(5) strategies_empty_word(2)]
  show ?thesis by (simp add: example_index_def empty_analysis_def)
qed

subsection \<open>Entries of the lexicon\<close>

lemma strategies_direct:
  "directMatch rdb lw = Some v \<Longrightarrow>
     strategies rdb t x lw =
       Inr \<lparr>original = x, normalized = lw, found = True, confidence = 1, matchType = direct,
            result = Some v, decomposition = [], suggestions = [], timestamp = t\<rparr>"
  by (simp add: strategies_def)

lemma filter_distinct_key:
  "distinct (map f xs) \<Longrightarrow> x \<in> set xs \<Longrightarrow> filter (\<lambda>y. f y = f x) xs = [x]"
proof (induction xs)
  case Nil
  then show ?case by simp
next
  case (Cons y ys)
  show ?case
  proof (cases "x = y")
    case True
    from Cons.prems(1) have "f y \<notin> f ` set ys" by simp
    then have "\<forall>z \<in> set ys. f z \<noteq> f y" by (metis imageI)
    with True have "filter (\<lambda>z. f z = f x) ys = []"
      by (simp add: filter_empty_conv)
    with True show ?thesis by simp
  next
    case False
    with Cons.prems have "x \<in> set ys" "f y \<noteq> f x" by auto
    with Cons show ?thesis by simp
  qed
qed

text \<open>
  C1, as amended. On an index that \<open>extractRootData\<close> built, for an entry \<open>E\<close> of the
  lexicon whose lowercased key has no white space at either end, analyzing \<open>english E\<close>
  returns a direct match of confidence 1 whose result is the last entry of the lexicon with
  the key of \<open>E\<close>; with unique keys that entry is \<open>E\<close> itself.
\<close>

theorem entry_resolves_direct:
  assumes "extractRootData db = Inr rdb" and "reachable rdb c" and "E \<in> set db"
    and "trim (key_of E) = key_of E"
  shows "\<exists>a c'. analyze rdb c now (english E) = Inr (a, c')
     \<and> found a \<and> matchType a = direct \<and> confidence a = 1
     \<and> result a = Some (Entry (last (filter (\<lambda>e. key_of e = key_of E) db)))
     \<and> (distinct (map key_of db) \<longrightarrow> result a = Some (Entry E))"
proof -
  from extractRootData_index_of[OF assms(1)] have r: "rdb = index_of db" .
  from assms(3) have "filter (\<lambda>e. key_of e = key_of E) db \<noteq> []"
    by (auto simp: filter_empty_conv)
  then have d: "directMatch rdb (key_of E) =
      Some (Entry (last (filter (\<lambda>e. key_of e = key_of E) db)))"
    by (simp add: r directMatch_def index_of_key)
  from assms(4) have n: "trim (toLowerCase (english E)) = key_of E" by (simp add: key_of_def)
  have u: "distinct (map key_of db) \<longrightarrow> last (filter (\<lambda>e. key_of e = key_of E) db) = E"
    using filter_distinct_key[of key_of db E] assms(3) by simp
  show ?thesis
    by (rule analyze_returns[OF assms(2) n]) (simp add: strategies_direct[OF d] u)
qed

lemma article_values:
  "toLowerCase ''a '' = ''a ''" "trim (toLowerCase ''a '') = ''a''"
  "trim (toLowerCase ''Happy'') = ''happy''" "trim ''happy'' = ''happy''"
  "trim (toLowerCase ''cats'') = ''cats''"
  by code_simp+

lemma article_key: "key_of article_entry = ''a ''"
  by (simp add: key_of_def article_entry_def article_values)

lemma article_plain: "plain_lexicon article_lexicon"
  by (simp add: plain_lexicon_def article_lexicon_def article_key index_key_def)

lemma pool_article: "pool [article_entry] ''a'' (lengthRange ''a'') = []"
  by (simp add: pool_def lengthRange_def article_key similar_in_key_of)

lemma similar_article: "findSimilarWords (index_of article_lexicon) ''a'' = Inr None"
  by (simp add: findSimilarWords_plain article_plain pool_article[folded article_lexicon_def]
      sort_candidates_def)

lemma strategies_article:
  "strategies (index_of article_lexicon) 0 ''a '' ''a'' = Inr article_analysis"
  by (simp add: strategies_def directMatch_def index_of_word index_key_def
      article_lexicon_def article_key matchInflections_def inflections_def endsWith_def
      matchWithAffixes_def prefixes_def suffixes_def startsWith_def
      similar_article[unfolded article_lexicon_def]
      analyzeCompoundWord_def article_analysis_def Let_def)

lemma strategies_happy: "strategies example_index 3 ''Happy'' ''happy'' = Inr happy_analysis"
  by (simp add: strategies_def directMatch_def example_index_word index_key_def
      happy_analysis_def)

theorem entry_resolves_direct_witness:
  "extractRootData example_lexicon = Inr example_index
   \<and> happy_entry \<in> set example_lexicon \<and> trim (key_of happy_entry) = key_of happy_entry
   \<and> distinct (map key_of example_lexicon)
   \<and> analyze example_index new_cache 3 (english happy_entry) =
       Inr (happy_analysis, new_cache(''happy'' \<mapsto> happy_analysis))
   \<and> found happy_analysis \<and> matchType happy_analysis = direct
   \<and> confidence happy_analysis = 1 \<and> result happy_analysis = Some (Entry happy_entry)"
proof -
  have b: "extractRootData example_lexicon = Inr example_index"
    using extractRootData_plain[OF plain_examples(3)] by (simp add: example_index_def)
  have m: "happy_entry \<in> set example_lexicon" by (simp add: example_lexicon_def)
  have t: "trim (key_of happy_entry) = key_of happy_entry"
    by (simp add: example_keys article_values)
  have u: "distinct (map key_of example_lexicon)"
    by (simp add: example_lexicon_def example_keys)
  have e: "english happy_entry = ''Happy''" by (simp add: happy_entry_def)
  note a = analyze_new[OF article_values(3) strategies_happy]
  from entry_resolves_direct[OF b reachable.fresh m t, of 3] a b m t u e
  show ?thesis by (simp add: happy_analysis_def)
qed

text \<open>
  C1 as stated fails: the key of the one entry of this lexicon ends in a space, the word is
  trimmed before the lookup and the key is not, and analyzing the \<open>english\<close> of the entry
  finds nothing.
\<close>

theorem entry_resolves_direct_counterexample:
  "extractRootData article_lexicon = Inr (index_of article_lexicon)
   \<and> article_entry \<in> set article_lexicon
   \<and> map_sum id fst (analyze (index_of article_lexicon) new_cache 0 (english article_entry)) =
       Inr article_analysis
   \<and> found article_analysis = False \<and> matchType article_analysis = not_found"
proof -
  have e: "english article_entry = ''a ''" by (simp add: article_entry_def)
  from extractRootData_plain[OF article_plain]
    analyze_new[OF article_values(2) strategies_article] e
  show ?thesis by (simp add: article_lexicon_def article_analysis_def)
qed

subsection \<open>Determinism\<close>

lemma strategies_content:
  "strategies rdb t x lw =
     (case strategies rdb 0 [] lw of Inl e \<Rightarrow> Inl e
      | Inr a \<Rightarrow> Inr (a\<lparr>original := x, timestamp := t\<rparr>))"
  by (simp add: strategies_def Let_def split: option.splits sum.splits prod.splits)

lemma content_update: "content (a\<lparr>original := x, timestamp := t\<rparr>) = content a"
  by (simp add: content_def)

lemma analyze_content:
  assumes "reachable rdb c"
  shows "map_sum id (content \<circ> fst) (analyze rdb c t w) =
     map_sum id content (strategies rdb 0 [] (trim (toLowerCase w)))"
proof (cases "c (trim (toLowerCase w))")
  case None
  define lw where "lw = trim (toLowerCase w)"
  from None have a: "analyze rdb c t w =
      (case strategies rdb t w lw of Inl e \<Rightarrow> Inl e | Inr a \<Rightarrow> Inr (a, c(lw \<mapsto> a)))"
    unfolding lw_def by (simp add: analyze_def Let_def)
  show ?thesis
  proof (cases "strategies rdb 0 [] lw")
    case (Inl e)
    then have "strategies rdb t w lw = Inl e" by (subst strategies_content) simp
    with Inl a show ?thesis by (simp add: lw_def)
  next
    case (Inr a0)
    then have "strategies rdb t w lw = Inr (a0\<lparr>original := w, timestamp := t\<rparr>)"
      by (subst strategies_content) simp
    with Inr a show ?thesis by (simp add: lw_def content_update)
  qed
next
  case (Some b)
  from reachable_cached[OF assms Some] obtain t' x' where
    "strategies rdb t' x' (trim (toLowerCase w)) = Inr b" by blast
  then have "map_sum id content (strategies rdb 0 [] (trim (toLowerCase w))) = Inr (content b)"
    by (subst (asm) strategies_content) (auto simp: content_update split: sum.splits)
  with Some show ?thesis by (simp add: analyze_def Let_def)
qed

lemma analyze_again:
  assumes "analyze rdb c t1 w1 = Inr (a, c')"
    and "trim (toLowerCase w2) = trim (toLowerCase w1)"
  shows "analyze rdb c' t2 w2 = Inr (a, c')"
proof -
  from assms(1) have "c' (trim (toLowerCase w1)) = Some a"
    by (auto simp: analyze_def Let_def split: option.splits sum.splits)
  with assms(2) show ?thesis by (simp add: analyze_def Let_def)
qed

text \<open>
  C9, as amended. Two calls whose words normalize to the same word, on any two analyzers
  over the same index, either both raise or return results that agree in every field
  except \<open>original\<close> and \<open>timestamp\<close>. On one analyzer, the call after a call that
  returned is served from the cache: it returns the very same result, with the \<open>original\<close>
  and \<open>timestamp\<close> of the first call, and leaves the cache as it is.
\<close>

theorem analyze_deterministic:
  assumes "reachable rdb c1" and "reachable rdb c2"
    and "trim (toLowerCase w1) = trim (toLowerCase w2)"
  shows "map_sum id (content \<circ> fst) (analyze rdb c1 t1 w1) =
         map_sum id (content \<circ> fst) (analyze rdb c2 t2 w2)
     \<and> (\<forall>a c'. analyze rdb c1 t1 w1 = Inr (a, c') \<longrightarrow> analyze rdb c' t2 w2 = Inr (a, c'))"
  using analyze_content[OF assms(1)] analyze_content[OF assms(2)] assms(3) analyze_again
  by simp


lemma strategies_cats_lower:
  "strategies example_index 0 ''cats'' ''cats'' = Inr (cats_analysis\<lparr>original := ''cats''\<rparr>)"
  by (simp add: strategies_def directMatch_def example_index_word index_key_def
      matchInflections_def inflections_def endsWith_def slice_end_def getInflectionMeaning_def
      cat_entry_def cats_analysis_def Let_def)

theorem analyze_deterministic_witness:
  "trim (toLowerCase ''Cats'') = trim (toLowerCase ''cats'')
   \<and> map_sum id (content \<circ> fst) (analyze example_index new_cache 0 ''Cats'') =
       map_sum id (content \<circ> fst) (analyze example_index new_cache 5 ''cats'')
   \<and> analyze example_index new_cache 0 ''Cats'' =
       Inr (cats_analysis, new_cache(''cats'' \<mapsto> cats_analysis))
   \<and> analyze example_index (new_cache(''cats'' \<mapsto> cats_analysis)) 5 ''cats'' =
       Inr (cats_analysis, new_cache(''cats'' \<mapsto> cats_analysis))"
proof -
  have n: "trim (toLowerCase ''Cats'') = trim (toLowerCase ''cats'')"
    by (simp only: normalize_values article_values)
  note a = analyze_new[OF normalize_values(1) strategies_cats]
  from analyze_deterministic[OF reachable.fresh reachable.fresh n, of example_index 0 5] a n
  show ?thesis by simp
qed

text \<open>
  C9 as stated fails: \<open>Cats\<close> and \<open>cats\<close> normalize to the same word, and two fresh
  analyzers at the same clock return results that differ in the field \<open>original\<close>.
\<close>

theorem analyze_deterministic_counterexample:
  "trim (toLowerCase ''Cats'') = trim (toLowerCase ''cats'')
   \<and> map_sum id fst (analyze example_index new_cache 0 ''Cats'') = Inr cats_analysis
   \<and> map_sum id fst (analyze example_index new_cache 0 ''cats'') =
       Inr (cats_analysis\<lparr>original := ''cats''\<rparr>)
   \<and> cats_analysis \<noteq> cats_analysis\<lparr>original := ''cats''\<rparr>"
proof -
  have n: "trim (toLowerCase ''Cats'') = trim (toLowerCase ''cats'')"
    by (simp only: normalize_values article_values)
  have d: "cats_analysis \<noteq> cats_analysis\<lparr>original := ''cats''\<rparr>"
    by (simp add: cats_analysis_def)
  from analyze_new[OF normalize_values(1) strategies_cats]
    analyze_new[OF article_values(5) strategies_cats_lower] n d
  show ?thesis by simp
qed

subsection \<open>The names of the index buckets\<close>

lemma toLowerChar_idem: "toLowerChar (toLowerChar c) = toLowerChar c"
proof -
  have b: "(of_char c :: nat) < 256" by simp
  have "\<And>n::nat. n \<le> 222 \<Longrightarrow> (of_char (char_of (n + 32)) :: nat) = n + 32" by simp
  with b show ?thesis by (auto simp: toLowerChar_def Let_def)
qed

lemma toLowerChar_digit: "d < 10 \<Longrightarrow> toLowerChar (digit d) = digit d"
  by (simp add: toLowerChar_def digit_def Let_def)

lemma is_space_digit: "d < 10 \<Longrightarrow> \<not> is_space (digit d)"
  by (auto simp: is_space_def digit_def)

lemma toLowerCase_string_of_nat: "toLowerCase (string_of_nat n) = string_of_nat n"
proof (induction n rule: string_of_nat.induct)
  case (1 n)
  show ?case
  proof (cases "n < 10")
    case True
    then show ?thesis by (simp add: string_of_nat.simps[of n] toLowerCase_def toLowerChar_digit)
  next
    case False
    with "1.IH" show ?thesis
      by (simp add: string_of_nat.simps[of n] toLowerCase_def toLowerChar_digit)
  qed
qed

lemma last_string_of_nat: "last (string_of_nat n) = digit (n mod 10)"
  by (subst string_of_nat.simps) simp

lemma trim_id: "s \<noteq> [] \<Longrightarrow> \<not> is_space (hd s) \<Longrightarrow> \<not> is_space (last s) \<Longrightarrow> trim s = s"
proof -
  assume s: "s \<noteq> []" and h: "\<not> is_space (hd s)" and l: "\<not> is_space (last s)"
  from s h have "dropWhile is_space s = s" by (cases s) simp_all
  moreover from s l have "dropWhile is_space (rev s) = rev s"
    by (cases "rev s") (simp_all add: hd_rev[symmetric])
  ultimately show ?thesis by (simp add: trim_def)
qed

lemma normalize_length_key: "trim (toLowerCase (length_key n)) = length_key n"
proof -
  have l: "toLowerCase (length_key n) = length_key n"
    by (simp add: length_key_def toLowerCase_string_of_nat[unfolded toLowerCase_def]
        toLowerCase_def toLowerChar_def)
  have "\<not> is_space (last (length_key n))"
    by (simp add: length_key_def string_of_nat_not_Nil last_string_of_nat is_space_digit)
  moreover have "\<not> is_space (hd (length_key n))"
    by (simp add: length_key_def is_space_def)
  moreover have "length_key n \<noteq> []" by (simp add: length_key_def)
  ultimately show ?thesis by (simp add: l trim_id)
qed

lemma normalize_letter_key:
  assumes "toLowerChar ch = ch" and "\<not> is_space ch"
  shows "trim (toLowerCase (letter_key (ch # rest))) = letter_key (ch # rest)"
proof -
  from assms(1) have l: "toLowerCase (letter_key (ch # rest)) = letter_key (ch # rest)"
    by (simp add: letter_key_def toLowerCase_def toLowerChar_def)
  have h: "\<not> is_space (hd (letter_key (ch # rest)))" by (simp add: letter_key_def is_space_def)
  from assms(2) have e: "\<not> is_space (last (letter_key (ch # rest)))"
    by (simp add: letter_key_def)
  have "letter_key (ch # rest) \<noteq> []" by (simp add: letter_key_def)
  from trim_id[OF this h e] show ?thesis by (simp only: l)
qed

lemma bucket_letter_key:
  "bucket db (letter_key (ch # rest)) = filter (\<lambda>e. take 1 (key_of e) = [ch]) db"
proof -
  have "\<And>k. (length_key (length k) = letter_key (ch # rest) \<or> letter_key k = letter_key (ch # rest))
      = (take 1 k = [ch])"
    using length_key_neq_letter_key[of _ "ch # rest"]
    by (auto simp: letter_key_def split: list.splits)
  then show ?thesis by (simp add: bucket_def)
qed

text \<open>
  C10. The index buckets are properties of the same object as the entries. On an index
  that \<open>extractRootData\<close> built, take an entry \<open>E\<close> of the lexicon. When no entry is
  itself keyed by the name of the length bucket of \<open>E\<close>, analyzing that name returns a
  direct match of confidence 1 whose result is the array of all entries of that length.
  When the key of \<open>E\<close> starts with a character \<open>ch\<close> that is not white space and no entry
  is itself keyed by the name of the letter bucket of \<open>E\<close>, analyzing that name returns a
  direct match of confidence 1 whose result is the array of all entries that start with
  \<open>ch\<close>.
\<close>

theorem bucket_names_resolve_direct:
  assumes "extractRootData db = Inr rdb" and "reachable rdb c" and "E \<in> set db"
  shows "((\<forall>e \<in> set db. key_of e \<noteq> length_key (length (key_of E))) \<longrightarrow>
          (\<exists>a c'. analyze rdb c now (length_key (length (key_of E))) = Inr (a, c')
            \<and> found a \<and> matchType a = direct \<and> confidence a = 1
            \<and> result a =
                Some (Index (filter (\<lambda>e. length (key_of e) = length (key_of E)) db))))
       \<and> (key_of E = ch # rest \<and> \<not> is_space ch
            \<and> (\<forall>e \<in> set db. key_of e \<noteq> letter_key (key_of E)) \<longrightarrow>
          (\<exists>a c'. analyze rdb c now (letter_key (key_of E)) = Inr (a, c')
            \<and> found a \<and> matchType a = direct \<and> confidence a = 1
            \<and> result a = Some (Index (filter (\<lambda>e. take 1 (key_of e) = [ch]) db))))"
proof (intro conjI impI)
  from extractRootData_index_of[OF assms(1)] have r: "rdb = index_of db" .
  {
    assume "\<forall>e \<in> set db. key_of e \<noteq> length_key (length (key_of E))"
    then have nk: "filter (\<lambda>e. key_of e = length_key (length (key_of E))) db = []"
      by (simp add: filter_empty_conv)
    from assms(3) have "filter (\<lambda>e. length (key_of e) = length (key_of E)) db \<noteq> []"
      by (auto simp: filter_empty_conv)
    with nk have d: "directMatch rdb (length_key (length (key_of E))) =
        Some (Index (filter (\<lambda>e. length (key_of e) = length (key_of E)) db))"
      by (simp add: r directMatch_def index_of_no_key bucket_length_key)
    show "\<exists>a c'. analyze rdb c now (length_key (length (key_of E))) = Inr (a, c')
            \<and> found a \<and> matchType a = direct \<and> confidence a = 1
            \<and> result a =
                Some (Index (filter (\<lambda>e. length (key_of e) = length (key_of E)) db))"
      by (rule analyze_returns[OF assms(2) normalize_length_key])
         (simp add: strategies_direct[OF d])
  }
  {
    assume a: "key_of E = ch # rest \<and> \<not> is_space ch
            \<and> (\<forall>e \<in> set db. key_of e \<noteq> letter_key (key_of E))"
    then have k: "key_of E = ch # rest" and sp: "\<not> is_space ch"
      and "\<forall>e \<in> set db. key_of e \<noteq> letter_key (key_of E)"
      by blast+
    then have nk: "filter (\<lambda>e. key_of e = letter_key (key_of E)) db = []"
      unfolding filter_empty_conv by blast
    have "take 1 (key_of E) = [ch]" by (simp add: k)
    with assms(3) have "filter (\<lambda>e. take 1 (key_of e) = [ch]) db \<noteq> []"
      unfolding filter_empty_conv by blast
    with nk have d: "directMatch rdb (letter_key (key_of E)) =
        Some (Index (filter (\<lambda>e. take 1 (key_of e) = [ch]) db))"
      by (simp add: r directMatch_def index_of_no_key k bucket_letter_key)
    from k have "toLowerChar ch = ch"
      by (auto simp: key_of_def toLowerCase_def toLowerChar_idem)
    from normalize_letter_key[OF this sp]
    have n: "trim (toLowerCase (letter_key (key_of E))) = letter_key (key_of E)"
      by (simp add: k)
    show "\<exists>a c'. analyze rdb c now (letter_key (key_of E)) = Inr (a, c')
            \<and> found a \<and> matchType a = direct \<and> confidence a = 1
            \<and> result a = Some (Index (filter (\<lambda>e. take 1 (key_of e) = [ch]) db))"
      by (rule analyze_returns[OF assms(2) n]) (simp add: strategies_direct[OF d])
  }
qed

lemma example_buckets:
  "bucket example_lexicon (length_key 3) = [cat_entry]"
  "bucket example_lexicon (letter_key ''cat'') = [cat_entry]"
  by (simp_all add: bucket_length_key bucket_letter_key example_lexicon_def example_keys)

lemma example_bucket_names:
  "directMatch example_index ''length_3'' = Some (Index [cat_entry])"
  "directMatch example_index ''letter_c'' = Some (Index [cat_entry])"
proof -
  have k: "letter_key ''cat'' = ''letter_c''" by (simp add: letter_key_def)
  have "filter (\<lambda>e. key_of e = ''length_3'') example_lexicon = []"
    "filter (\<lambda>e. key_of e = ''letter_c'') example_lexicon = []"
    by (simp_all add: example_lexicon_def example_keys)
  from index_of_no_key[OF this(1)] index_of_no_key[OF this(2)]
  show "directMatch example_index ''length_3'' = Some (Index [cat_entry])"
    "directMatch example_index ''letter_c'' = Some (Index [cat_entry])"
    by (simp_all add: directMatch_def example_index_def example_buckets[unfolded length_key_3 k])
qed

theorem bucket_names_resolve_direct_witness:
  "extractRootData example_lexicon = Inr example_index
   \<and> cat_entry \<in> set example_lexicon \<and> key_of cat_entry = ''cat''
   \<and> analyze example_index new_cache 0 ''length_3'' =
       Inr (length_3_analysis, new_cache(''length_3'' \<mapsto> length_3_analysis))
   \<and> analyze example_index new_cache 0 ''letter_c'' =
       Inr (letter_c_analysis, new_cache(''letter_c'' \<mapsto> letter_c_analysis))
   \<and> found length_3_analysis \<and> matchType length_3_analysis = direct
   \<and> confidence length_3_analysis = 1 \<and> result length_3_analysis = Some (Index [cat_entry])
   \<and> found letter_c_analysis \<and> matchType letter_c_analysis = direct
   \<and> confidence letter_c_analysis = 1 \<and> result letter_c_analysis = Some (Index [cat_entry])"
proof -
  have b: "extractRootData example_lexicon = Inr example_index"
    using extractRootData_plain[OF plain_examples(3)] by (simp add: example_index_def)
  have m: "cat_entry \<in> set example_lexicon" by (simp add: example_lexicon_def)
  have s: "\<not> is_space CHR ''c''" by (simp add: is_space_def)
  have h: "\<forall>e \<in> set example_lexicon. key_of e \<noteq> length_key (length (key_of cat_entry))"
    "\<forall>e \<in> set example_lexicon. key_of e \<noteq> letter_key (key_of cat_entry)"
    using plain_lexicon_key[OF plain_examples(3)] index_key_length_key index_key_letter_key
    by metis+
  have n: "trim (toLowerCase ''length_3'') = ''length_3''"
    "trim (toLowerCase ''letter_c'') = ''letter_c''"
    by code_simp+
  have a1: "analyze example_index new_cache 0 ''length_3'' =
       Inr (length_3_analysis, new_cache(''length_3'' \<mapsto> length_3_analysis))"
    using analyze_new[OF n(1) strategies_direct[OF example_bucket_names(1)], of 0]
    by (simp add: length_3_analysis_def)
  have a2: "analyze example_index new_cache 0 ''letter_c'' =
       Inr (letter_c_analysis, new_cache(''letter_c'' \<mapsto> letter_c_analysis))"
    using analyze_new[OF n(2) strategies_direct[OF example_bucket_names(2)], of 0]
    by (simp add: letter_c_analysis_def)
  from bucket_names_resolve_direct[OF b reachable.fresh m, of 0 "CHR ''c''" "''at''"]
    example_keys(1) s h a1 a2 b m
  show ?thesis
    by (simp add: example_keys length_3_analysis_def letter_c_analysis_def)
qed

end
